(* ===== verification/Prelude.thy ===== *)
theory Prelude
  imports Main "HOL-Library.Word" "HOL-Library.Sublist"
begin

text \<open>
  Shared vocabulary of the development: machine integers at the width the crate uses them,
  \<open>std::time::Duration\<close> as a bounded count of nanoseconds, UTC instants, the
  \<open>Result\<close> plumbing of the \<open>?\<close> operator, the \<open>std\<close> string
  operations the crate calls, and the generic list, option and word lemmas that the component
  theories rely on.
\<close>

named_theorems ring_simps \<open>definitions of the telemetry rings, unfolded together\<close>
named_theorems fs_simps \<open>behaviour of the file system primitives\<close>
named_theorems path_simps \<open>evaluation of the path literals of the crate\<close>

section \<open>Types\<close>

type_synonym u8 = "8 word"
type_synonym u32 = "32 word"
type_synonym u64 = "64 word"
type_synonym bytes = "u8 list"

text \<open>
  \<open>Duration\<close> is a number of nanoseconds; \<open>duration_max\<close> is
  \<open>Duration::MAX\<close>. Every operation below that can leave the range says what the
  standard library does there.
\<close>

type_synonym duration = nat

definition duration_max :: duration where
  "duration_max = (2 ^ 64 - 1) * 1000000000 + 999999999"

definition from_secs :: "nat \<Rightarrow> duration" where
  "from_secs s = s * 1000000000"

definition from_millis :: "nat \<Rightarrow> duration" where
  "from_millis ms = ms * 1000000"

definition as_secs :: "duration \<Rightarrow> nat" where
  "as_secs d = d div 1000000000"

definition as_millis :: "duration \<Rightarrow> nat" where
  "as_millis d = d div 1000000"

definition saturating_mul :: "duration \<Rightarrow> nat \<Rightarrow> duration" where
  "saturating_mul d k = min (d * k) duration_max"

text \<open>A UTC instant: whole seconds since the epoch and the nanoseconds within the second.\<close>

datatype datetime = DateTime (timestamp: int) (subsec_nanos: nat)

instantiation datetime :: linorder
begin

definition less_eq_datetime :: "datetime \<Rightarrow> datetime \<Rightarrow> bool" where
  "less_eq_datetime a b \<longleftrightarrow>
     timestamp a < timestamp b \<or> (timestamp a = timestamp b \<and> subsec_nanos a \<le> subsec_nanos b)"

definition less_datetime :: "datetime \<Rightarrow> datetime \<Rightarrow> bool" where
  "less_datetime a b \<longleftrightarrow>
     timestamp a < timestamp b \<or> (timestamp a = timestamp b \<and> subsec_nanos a < subsec_nanos b)"

instance
  by standard
    (auto simp: less_eq_datetime_def less_datetime_def intro: datetime.expand)

end

section \<open>Saturating machine arithmetic\<close>

definition sat_add :: "'a::len word \<Rightarrow> 'a word \<Rightarrow> 'a word" where
  "sat_add a b = (if unat a + unat b < 2 ^ LENGTH('a) then a + b else - 1)"

lemma unat_sat_add:
  "unat (sat_add a b) = min (unat a + unat b) (2 ^ LENGTH('a) - 1)" for a b :: "'a::len word"
proof (cases "unat a + unat b < 2 ^ LENGTH('a)")
  case True
  then show ?thesis
    by (simp add: sat_add_def unat_word_ariths)
next
  case False
  then show ?thesis
    by (simp add: sat_add_def unsigned_minus_1_eq_mask mask_eq_exp_minus_1)
qed

lemma sat_add_commute: "sat_add a b = sat_add b a" for a b :: "'a::len word"
  by (simp add: sat_add_def add.commute)

lemma sat_add_assoc: "sat_add (sat_add a b) c = sat_add a (sat_add b c)" for a b c :: "'a::len word"
  unfolding word_unat_eq_iff unat_sat_add by linarith

lemma sat_add_zero [simp]: "sat_add 0 b = b" "sat_add b 0 = b" for b :: "'a::len word"
  using unsigned_less[of b] by (auto simp: sat_add_def)

definition i64_max :: int where "i64_max = 2 ^ 63 - 1"
definition i64_min :: int where "i64_min = - (2 ^ 63)"

definition sat_i64 :: "int \<Rightarrow> int" where
  "sat_i64 x = max i64_min (min i64_max x)"

text \<open>\<open>x as i64\<close> for an unsigned 64-bit value: two's complement reinterpretation.\<close>

definition u64_as_i64 :: "nat \<Rightarrow> int" where
  "u64_as_i64 n = (if int n \<le> i64_max then int n else int n - 2 ^ 64)"

section \<open>Results and the question-mark operator\<close>

text \<open>
  A fallible operation on a state \<open>'s\<close> returns an error or a value together with the
  state it leaves behind: effects done before an error are not undone.
\<close>

type_synonym ('s, 'e, 'a) action = "'s \<Rightarrow> ('e + 'a) \<times> 's"

definition try_bind :: "('s, 'e, 'a) action \<Rightarrow> ('a \<Rightarrow> ('s, 'e, 'b) action) \<Rightarrow> ('s, 'e, 'b) action" where
  "try_bind m f s = (case m s of (Inl e, s') \<Rightarrow> (Inl e, s') | (Inr a, s') \<Rightarrow> f a s')"

definition map_err :: "('e \<Rightarrow> 'f) \<Rightarrow> ('s, 'e, 'a) action \<Rightarrow> ('s, 'f, 'a) action" where
  "map_err g m s = (case m s of (Inl e, s') \<Rightarrow> (Inl (g e), s') | (Inr a, s') \<Rightarrow> (Inr a, s'))"

definition ok_or :: "'e \<Rightarrow> 'a option \<Rightarrow> 'e + 'a" where
  "ok_or e x = (case x of None \<Rightarrow> Inl e | Some a \<Rightarrow> Inr a)"

lemma try_bind_Inr [simp]: "m s = (Inr a, s') \<Longrightarrow> try_bind m f s = f a s'"
  by (simp add: try_bind_def)

lemma try_bind_Inl [simp]: "m s = (Inl e, s') \<Longrightarrow> try_bind m f s = (Inl e, s')"
  by (simp add: try_bind_def)

lemma try_bind_Inr_iff:
  "try_bind m f s = (Inr b, t) \<longleftrightarrow> (\<exists>a s'. m s = (Inr a, s') \<and> f a s' = (Inr b, t))"
  by (auto simp: try_bind_def split: prod.splits sum.splits)

lemma map_err_Inr [simp]: "m s = (Inr a, s') \<Longrightarrow> map_err g m s = (Inr a, s')"
  by (simp add: map_err_def)

lemma map_err_Inl [simp]: "m s = (Inl e, s') \<Longrightarrow> map_err g m s = (Inl (g e), s')"
  by (simp add: map_err_def)

lemma map_err_Inr_iff: "map_err g m s = (Inr a, s') \<longleftrightarrow> m s = (Inr a, s')"
  by (auto simp: map_err_def split: prod.splits sum.splits)

lemma map_err_snd [simp]: "snd (map_err g m s) = snd (m s)"
  by (simp add: map_err_def split: prod.splits sum.splits)

text \<open>What both halves of a sequence leave alone, the sequence leaves alone.\<close>

lemma try_bind_keeps:
  assumes "\<And>s. P (snd (m s)) = P s" and "\<And>a s. P (snd (f a s)) = P s"
  shows "P (snd (try_bind m f s)) = P s"
proof (cases "m s")
  case (Pair r s')
  then have "P s' = P s" using assms(1)[of s] by simp
  with Pair assms(2)[of _ s'] show ?thesis by (cases r) auto
qed

section \<open>Counting in lists\<close>

definition cnt :: "('a \<Rightarrow> bool) \<Rightarrow> 'a list \<Rightarrow> nat" where
  "cnt P xs = length (filter P xs)"

lemma cnt_simps [simp]:
  "cnt P [] = 0"
  "cnt P (x # xs) = (if P x then Suc (cnt P xs) else cnt P xs)"
  "cnt P (xs @ ys) = cnt P xs + cnt P ys"
  "cnt P (rev xs) = cnt P xs"
  by (simp_all add: cnt_def rev_filter [symmetric])

lemma cnt_le_length: "cnt P xs \<le> length xs"
  by (simp add: cnt_def)

fun option_list :: "'a option \<Rightarrow> 'a list" where
  "option_list None = []"
| "option_list (Some x) = [x]"

lemma length_option_list: "length (option_list x) \<le> 1"
  by (cases x) simp_all

lemma cnt_True [simp]: "cnt (\<lambda>_. True) xs = length xs"
  by (simp add: cnt_def)

lemma cnt_take_drop: "cnt P (take n xs) + cnt P (drop n xs) = cnt P xs"
  by (metis append_take_drop_id cnt_simps(3))

lemma cnt_remove_nth:
  assumes "i < length xs"
  shows "cnt P (take i xs @ drop (Suc i) xs) + (if P (xs ! i) then 1 else 0) = cnt P xs"
  by (subst (3) id_take_nth_drop[OF assms]) simp

lemma cnt_split: "cnt P xs + cnt (\<lambda>x. \<not> P x) xs = length xs"
  by (induction xs) auto

section \<open>Strings\<close>

text \<open>
  A Rust string is its UTF-8 bytes, one \<open>char\<close> each. The operations below are the ones of
  \<open>str\<close> that the crate calls.
\<close>

text \<open>\<open>split_once\<close> and \<open>split\<close> at a one-byte pattern.\<close>

fun split_once :: "char \<Rightarrow> string \<Rightarrow> (string \<times> string) option" where
  "split_once c [] = None"
| "split_once c (x # xs) =
     (if x = c then Some ([], xs) else map_option (\<lambda>(a, b). (x # a, b)) (split_once c xs))"

fun split_on :: "char \<Rightarrow> string \<Rightarrow> string list" where
  "split_on c [] = [[]]"
| "split_on c (x # xs) =
     (if x = c then [] # split_on c xs
      else (case split_on c xs of [] \<Rightarrow> [[x]] | y # ys \<Rightarrow> (x # y) # ys))"

definition strip_prefix :: "string \<Rightarrow> string \<Rightarrow> string option" where
  "strip_prefix p s = (if prefix p s then Some (drop (length p) s) else None)"

definition starts_with :: "string \<Rightarrow> string \<Rightarrow> bool" where
  "starts_with p s = prefix p s"

definition contains :: "string \<Rightarrow> string \<Rightarrow> bool" where
  "contains p s = list_ex (prefix p) (suffixes s)"

fun find_map :: "('a \<Rightarrow> 'b option) \<Rightarrow> 'a list \<Rightarrow> 'b option" where
  "find_map f [] = None"
| "find_map f (x # xs) = (case f x of Some y \<Rightarrow> Some y | None \<Rightarrow> find_map f xs)"

definition nth_opt :: "'a list \<Rightarrow> nat \<Rightarrow> 'a option" where
  "nth_opt xs i = (if i < length xs then Some (xs ! i) else None)"

definition trim_end_matches :: "char \<Rightarrow> string \<Rightarrow> string" where
  "trim_end_matches c s = rev (dropWhile (\<lambda>x. x = c) (rev s))"

text \<open>\<open>to_ascii_lowercase\<close>: only the bytes of \<open>A\<close> to \<open>Z\<close> change.\<close>

definition ascii_lower :: "char \<Rightarrow> char" where
  "ascii_lower c =
     (if 65 \<le> (of_char c :: nat) \<and> (of_char c :: nat) \<le> 90
      then char_of ((of_char c :: nat) + 32) else c)"

definition to_ascii_lowercase :: "string \<Rightarrow> string" where
  "to_ascii_lowercase s = map ascii_lower s"

text \<open>
  \<open>str::trim\<close> removes Unicode White\_Space at both ends. The encodings below are all of
  it; UTF-8 is self-synchronising, so matching them bytewise is matching characters.
\<close>

definition byte_chars :: "nat list \<Rightarrow> string" where
  "byte_chars ns = map char_of ns"

definition white_space :: "string list" where
  "white_space = map byte_chars
     ([[9], [10], [11], [12], [13], [32], [194, 133], [194, 160], [225, 154, 128]]
      @ map (\<lambda>n. [226, 128, n]) [128..<139]
      @ [[226, 128, 168], [226, 128, 169], [226, 128, 175], [226, 129, 159], [227, 128, 128]])"

lemma white_space_nonempty: "\<forall>w \<in> set white_space. w \<noteq> []"
  by (auto simp: white_space_def byte_chars_def)

function strip_leading :: "string list \<Rightarrow> string \<Rightarrow> string" where
  "strip_leading ws s =
     (case find (\<lambda>w. w \<noteq> [] \<and> prefix w s) ws of
        None \<Rightarrow> s
      | Some w \<Rightarrow> strip_leading ws (drop (length w) s))"
  by pat_completeness auto
termination
proof (relation "measure (length \<circ> snd)", goal_cases)
  case (2 ws s w)
  then have "w \<noteq> []" "prefix w s" by (auto simp: find_Some_iff)
  then show ?case by (cases w) (auto simp: prefix_def)
qed simp

declare strip_leading.simps [simp del]

definition trim_start :: "string \<Rightarrow> string" where
  "trim_start s = strip_leading white_space s"

definition trim_end :: "string \<Rightarrow> string" where
  "trim_end s = rev (strip_leading (map rev white_space) (rev s))"

definition trim :: "string \<Rightarrow> string" where
  "trim s = trim_end (trim_start s)"

text \<open>\<open>str::parse::<u64>\<close>: an optional plus sign, then one or more decimal digits, in range.\<close>

definition is_digit :: "char \<Rightarrow> bool" where
  "is_digit c \<longleftrightarrow> 48 \<le> (of_char c :: nat) \<and> (of_char c :: nat) \<le> 57"

definition digit_val :: "char \<Rightarrow> nat" where
  "digit_val c = of_char c - 48"

definition dec_val :: "string \<Rightarrow> nat" where
  "dec_val s = foldl (\<lambda>n c. 10 * n + digit_val c) 0 s"

definition parse_u64 :: "string \<Rightarrow> nat option" where
  "parse_u64 s =
     (let ds = (case s of [] \<Rightarrow> [] | c # cs \<Rightarrow> if c = CHR ''+'' then cs else c # cs)
      in if ds \<noteq> [] \<and> list_all is_digit ds \<and> dec_val ds < 2 ^ 64 then Some (dec_val ds) else None)"

text \<open>\<open>to_string\<close> of an unsigned integer.\<close>

fun show_nat :: "nat \<Rightarrow> string" where
  "show_nat n =
     (if n < 10 then [char_of (48 + n)] else show_nat (n div 10) @ [char_of (48 + n mod 10)])"

declare show_nat.simps [simp del]

lemma char_digit [simp]: "n < 10 \<Longrightarrow> is_digit (char_of (48 + n))"
  and char_digit_val [simp]: "n < 10 \<Longrightarrow> digit_val (char_of (48 + n)) = n"
  by (simp_all add: is_digit_def digit_val_def)

lemma show_nat_digits: "list_all is_digit (show_nat n)"
proof (induction n rule: show_nat.induct)
  case (1 n)
  then show ?case
    by (subst show_nat.simps) auto
qed

lemma show_nat_nonempty [simp]: "show_nat n \<noteq> []"
  by (subst show_nat.simps) simp

lemma dec_val_snoc: "dec_val (s @ [c]) = 10 * dec_val s + digit_val c"
  by (simp add: dec_val_def)

lemma dec_val_show_nat: "dec_val (show_nat n) = n"
proof (induction n rule: show_nat.induct)
  case (1 n)
  show ?case
  proof (cases "n < 10")
    case True
    then show ?thesis
      by (subst show_nat.simps) (simp add: dec_val_def)
  next
    case False
    with 1 show ?thesis
      by (subst show_nat.simps) (simp add: dec_val_snoc)
  qed
qed

lemma show_nat_inj: "show_nat m = show_nat n \<longleftrightarrow> m = n"
  by (metis dec_val_show_nat)

lemma plus_not_digit: "\<not> is_digit (CHR ''+'')"
  by (simp add: is_digit_def)

lemma parse_u64_show_nat: "n < 2 ^ 64 \<Longrightarrow> parse_u64 (show_nat n) = Some n"
proof -
  assume n: "n < 2 ^ 64"
  obtain c cs where s: "show_nat n = c # cs"
    using show_nat_nonempty[of n] by (cases "show_nat n") auto
  from show_nat_digits[of n] plus_not_digit have c: "c \<noteq> CHR ''+''"
    by (auto simp: s)
  with n show_nat_digits[of n] dec_val_show_nat[of n] show ?thesis
    by (simp add: parse_u64_def s)
qed

lemma parse_u64_range: "parse_u64 s = Some n \<Longrightarrow> n < 2 ^ 64"
  by (auto simp: parse_u64_def Let_def split: if_splits)

lemma split_once_Some:
  "split_once c s = Some (a, b) \<longleftrightarrow> s = a @ c # b \<and> c \<notin> set a"
proof (induction s arbitrary: a)
  case (Cons x xs)
  then show ?case
    by (cases a) (auto split: option.splits)
qed simp

lemma split_once_None: "split_once c s = None \<longleftrightarrow> c \<notin> set s"
  by (induction s) auto

lemma split_on_nonempty [simp]: "split_on c s \<noteq> []"
  by (induction s) (auto split: list.splits)

lemma split_on_no_sep: "c \<notin> set s \<Longrightarrow> split_on c s = [s]"
  by (induction s) auto

lemma split_on_append: "c \<notin> set a \<Longrightarrow> split_on c (a @ c # b) = a # split_on c b"
  by (induction a) auto

lemma find_map_Some_iff:
  "find_map f xs = Some y \<longleftrightarrow>
     (\<exists>us x vs. xs = us @ x # vs \<and> f x = Some y \<and> (\<forall>u \<in> set us. f u = None))"
proof (induction xs)
  case (Cons x xs)
  show ?case
  proof (cases "f x")
    case None
    with Cons show ?thesis
      by (auto simp: Cons_eq_append_conv) (metis append_Cons set_ConsD)+
  next
    case (Some z)
    then have "find_map f (x # xs) = Some y \<Longrightarrow>
        x # xs = [] @ x # xs \<and> f x = Some y \<and> (\<forall>u \<in> set []. f u = None)"
      by simp
    with Some show ?thesis
      by (fastforce simp: Cons_eq_append_conv)
  qed
qed simp

lemma find_map_None_iff: "find_map f xs = None \<longleftrightarrow> (\<forall>x \<in> set xs. f x = None)"
  by (induction xs) (auto split: option.splits)

lemma strip_prefix_append [simp]: "strip_prefix p (p @ s) = Some s"
  by (simp add: strip_prefix_def)

lemma strip_prefix_Some_iff: "strip_prefix p s = Some t \<longleftrightarrow> s = p @ t"
  by (auto simp: strip_prefix_def prefix_def)

end
