(* ===== verification/Lanes.thy ===== *)
theory Lanes
  imports Prelude
begin

text \<open>
  The contract the two telemetry lanes share. A lane is a bounded ring that producers write
  without blocking and a flush task empties batch by batch; what does not fit is dropped and
  counted in an atomic counter that the next batch carries away. \<open>counted_lane\<close> states
  what one operation may do to the items of one class and to the counter of that class, and derives
  the ledger over any interleaving of operations; \<open>returnable_lane\<close> adds a lane whose
  undelivered batches are handed back. Counters are \<open>u64\<close> words, so the ledgers are
  equations between words and hold across a counter that wraps.
\<close>

datatype ('a, 't) lane_op = Put 'a | Ship 't

fun lane_run :: "('a \<Rightarrow> 'b \<Rightarrow> 'b) \<Rightarrow> ('t \<Rightarrow> 'b \<Rightarrow> 'r \<times> 'b) \<Rightarrow> ('a, 't) lane_op list \<Rightarrow> 'b \<Rightarrow> 'r list \<times> 'b" where
  "lane_run put take_out [] b = ([], b)"
| "lane_run put take_out (Put x # ops) b = lane_run put take_out ops (put x b)"
| "lane_run put take_out (Ship t # ops) b =
     (let (r, b') = take_out t b; (rs, b'') = lane_run put take_out ops b' in (r # rs, b''))"

fun lane_puts :: "('a, 't) lane_op list \<Rightarrow> 'a list" where
  "lane_puts [] = []"
| "lane_puts (Put x # ops) = x # lane_puts ops"
| "lane_puts (Ship t # ops) = lane_puts ops"

text \<open>Two steps of a ledger combine.\<close>

lemma ledger_trans: "a + m = s + x \<Longrightarrow> x + m' = s' + y \<Longrightarrow> a + (m + m') = s + s' + y"
  for a m s x m' s' y :: u64
proof -
  assume "a + m = s + x" and y: "x + m' = s' + y"
  then have "a + (m + m') = s + (x + m')" by (simp flip: add.assoc)
  then show ?thesis by (simp add: y add.assoc)
qed

locale counted_lane =
  fixes inv :: "'b \<Rightarrow> bool"
    and buffered :: "'b \<Rightarrow> 'a list"
    and drops :: "'b \<Rightarrow> u64"
    and counted :: "'a \<Rightarrow> bool"
    and put :: "'a \<Rightarrow> 'b \<Rightarrow> 'b"
    and take_out :: "'t \<Rightarrow> 'b \<Rightarrow> 'r \<times> 'b"
    and batch_items :: "'r \<Rightarrow> 'a list"
    and batch_drops :: "'r \<Rightarrow> u64"
  assumes inv_put: "inv b \<Longrightarrow> inv (put x b)"
    and inv_take: "inv b \<Longrightarrow> inv (snd (take_out t b))"
    and put_conserves: "inv b \<Longrightarrow>
      of_nat (cnt counted (buffered (put x b))) + drops (put x b) =
      of_nat (cnt counted (buffered b)) + drops b + (if counted x then 1 else 0)"
    and take_splits: "inv b \<Longrightarrow>
      batch_items (fst (take_out t b)) @ buffered (snd (take_out t b)) = buffered b"
    and take_drops: "inv b \<Longrightarrow> batch_drops (fst (take_out t b)) = drops b"
    and take_resets: "inv b \<Longrightarrow> drops (snd (take_out t b)) = 0"
begin

text \<open>What a lane still owes for the class: the items it holds and the drops not yet reported.\<close>

definition owed :: "'b \<Rightarrow> u64" where
  "owed b = of_nat (cnt counted (buffered b)) + drops b"

definition worth :: "'r \<Rightarrow> u64" where
  "worth r = of_nat (cnt counted (batch_items r)) + batch_drops r"

lemma owed_put: "inv b \<Longrightarrow> owed (put x b) = owed b + of_nat (cnt counted [x])"
  using put_conserves[of b x] by (simp add: owed_def split: if_splits)

lemma owed_take: "inv b \<Longrightarrow> owed b = worth (fst (take_out t b)) + owed (snd (take_out t b))"
  using take_splits[of b t] take_drops[of b t] take_resets[of b t]
  by (simp add: owed_def worth_def algebra_simps flip: take_splits[of b t])

lemma inv_puts: "inv b \<Longrightarrow> inv (fold put xs b)"
  by (induction xs arbitrary: b) (auto intro: inv_put)

lemma owed_puts: "inv b \<Longrightarrow> owed (fold put xs b) = owed b + of_nat (cnt counted xs)"
proof (induction xs arbitrary: b)
  case (Cons x xs)
  then show ?case
    using Cons.IH[of "put x b"] by (simp add: inv_put owed_put)
qed simp

lemma inv_run: "inv b \<Longrightarrow> inv (snd (lane_run put take_out ops b))"
proof (induction ops arbitrary: b rule: lane_puts.induct)
  case (3 t ops)
  then show ?case
    using inv_take[of b t] by (simp split: prod.splits) (metis snd_conv)
qed (simp_all add: inv_put)

lemma run_ledger:
  "inv b \<Longrightarrow>
     owed b + of_nat (cnt counted (lane_puts ops)) =
     sum_list (map worth (fst (lane_run put take_out ops b))) + owed (snd (lane_run put take_out ops b))"
proof (induction ops arbitrary: b rule: lane_puts.induct)
  case (2 x ops)
  then show ?case
    using "2.IH"[of "put x b"] by (simp add: inv_put owed_put algebra_simps split: if_splits)
next
  case (3 t ops)
  obtain r b' where tk: "take_out t b = (r, b')" by (cases "take_out t b")
  have "inv b'" using inv_take[OF "3.prems", of t] tk by simp
  from "3.IH"[OF this] owed_take[OF "3.prems", of t] show ?case
    by (simp add: tk algebra_simps split: prod.splits)
qed simp

end

locale returnable_lane = counted_lane inv buffered drops counted put take_out batch_items batch_drops
  for inv :: "'b \<Rightarrow> bool"
    and buffered :: "'b \<Rightarrow> 'a list"
    and drops :: "'b \<Rightarrow> u64"
    and counted :: "'a \<Rightarrow> bool"
    and put :: "'a \<Rightarrow> 'b \<Rightarrow> 'b"
    and take_out :: "'t \<Rightarrow> 'b \<Rightarrow> 'r \<times> 'b"
    and batch_items :: "'r \<Rightarrow> 'a list"
    and batch_drops :: "'r \<Rightarrow> u64" +
  fixes give_back :: "'r \<Rightarrow> 'b \<Rightarrow> 'b"
  assumes inv_give: "inv b \<Longrightarrow> inv (give_back r b)"
    and give_conserves: "inv b \<Longrightarrow>
      of_nat (cnt counted (buffered (give_back r b))) + drops (give_back r b) =
      of_nat (cnt counted (buffered b)) + drops b
        + (of_nat (cnt counted (batch_items r)) + batch_drops r)"
begin

lemma owed_give: "inv b \<Longrightarrow> owed (give_back r b) = owed b + worth r"
  using give_conserves[of b r] by (simp add: owed_def worth_def)

text \<open>
  A delivery attempt: the batch is taken out, producers go on recording while it is in flight, and
  it is then either gone or handed back. Returned, the attempt costs nothing.
\<close>

lemma owed_failed_attempt:
  assumes "inv b"
  shows "owed (give_back (fst (take_out t b)) (fold put xs (snd (take_out t b)))) =
         owed b + of_nat (cnt counted xs)"
proof -
  have "inv (snd (take_out t b))" using assms by (rule inv_take)
  then show ?thesis
    using owed_take[OF assms, of t] by (simp add: owed_give inv_puts owed_puts algebra_simps)
qed

end

text \<open>
  Steps that keep an invariant and, under it, a quantity: so does any sequence of them. A ledger is
  such a quantity, what is owed and shipped less what was recorded.
\<close>

locale conserving_steps =
  fixes inv :: "'s \<Rightarrow> bool"
    and quantity :: "'s \<Rightarrow> u64"
    and step :: "'op \<Rightarrow> 's \<Rightarrow> 's"
  assumes inv_step: "inv s \<Longrightarrow> inv (step op s)"
    and quantity_step: "inv s \<Longrightarrow> quantity (step op s) = quantity s"
begin

lemma inv_steps: "inv s \<Longrightarrow> inv (fold step ops s)"
  by (induction ops arbitrary: s) (auto intro: inv_step)

lemma quantity_steps: "inv s \<Longrightarrow> quantity (fold step ops s) = quantity s"
  by (induction ops arbitrary: s) (auto simp: inv_step quantity_step)

end

end
