(* ===== verification/Wire.thy ===== *)
theory Wire
  imports Prelude Complex_Main
begin

text \<open>
  The messages of the \<open>mcpg.cp.v1\<close> contract that the crate builds or reads. The types are
  generated from the protobuf schema of \<open>mcpg-control-plane-core\<close>, which is not part of
  this repository: each record has exactly the fields that the crate's struct literals and field
  accesses name, and the numeric codes of the two enums stay a parameter (\<open>proto_enums\<close>).
\<close>

record timestamp_pb =
  pb_seconds :: int
  pb_nanos :: int

datatype tool_outcome =
    TOk | TClientError | TServerError | TPolicyDenied | TQuotaExceeded | TIdempotentReplay

datatype proto_level = PTrace | PDebug | PInfo | PWarn | PError

record proto_enums =
  outcome_i32 :: "tool_outcome \<Rightarrow> int"
  level_i32 :: "proto_level \<Rightarrow> int"

record tool_invocation_sample =
  tis_plugin_id :: string
  tis_tool_name :: string
  tis_binding_id :: string
  tis_started_at :: "timestamp_pb option"
  tis_duration_ms :: u32
  tis_outcome :: int
  tis_error_code :: string
  tis_error_hash :: string
  tis_request_id :: string
  tis_caller_subject :: string
  tis_request_payload :: bytes
  tis_response_payload :: bytes
  tis_payload_encrypted :: bool
  tis_dek_version :: u32

record event_usage_sample =
  eus_event_name :: string
  eus_mode :: string
  eus_delivered :: u64
  eus_abandoned :: u64
  eus_ingested :: u64
  eus_bytes :: u64
  eus_window_start :: "timestamp_pb option"
  eus_window_end :: "timestamp_pb option"

record metrics_report =
  mr_at :: "timestamp_pb option"
  mr_seq :: u64
  mr_invocations :: "tool_invocation_sample list"
  mr_dropped_overflow :: u64
  mr_dropped_non_billable :: u64
  mr_events :: "event_usage_sample list"

record log_line =
  ll_at :: "timestamp_pb option"
  ll_level :: int
  ll_target :: string
  ll_message :: string
  ll_plugin_id :: string

record log_batch =
  lb_at :: "timestamp_pb option"
  lb_seq :: u64
  lb_lines :: "log_line list"
  lb_dropped_overflow :: u64

record plugin_status =
  ps_id :: string
  ps_version :: string
  ps_state :: string
  ps_error :: string
  ps_invocations :: u64

record cluster_status =
  cs_kind :: string
  cs_backend_up :: "bool option"
  cs_peers :: "u32 option"

record delivery_refusal_pb =
  dr_reason :: string
  dr_proof_kid :: string

record status_report =
  sr_at :: "timestamp_pb option"
  sr_config_hash :: string
  sr_plugins :: "plugin_status list"
  sr_resources :: "unit option"
  sr_warnings :: "string list"
  sr_cluster :: "cluster_status option"
  sr_secrets_digest :: string
  sr_delivery_refusal :: "delivery_refusal_pb option"

record config_ack =
  ca_config_hash :: string
  ca_applied_at :: "timestamp_pb option"
  ca_applied_state :: string
  ca_error :: string

record heartbeat =
  hb_at :: "timestamp_pb option"
  hb_seq :: u64
  hb_health :: string
  hb_active_connections :: u32
  hb_cpu_load_avg :: rat
  hb_memory_rss_bytes :: u64

text \<open>The \<open>kind\<close> of an \<open>AgentMessage\<close>; the crate always sets it.\<close>

datatype agent_message =
    MetricsReport metrics_report
  | LogBatch log_batch
  | StatusReport status_report
  | ConfigAck config_ack
  | Heartbeat heartbeat

text \<open>\<open>prost_types::Timestamp\<close> of an instant, and of the current second.\<close>

definition pb_of :: "datetime \<Rightarrow> timestamp_pb" where
  "pb_of t = \<lparr>pb_seconds = timestamp t, pb_nanos = int (subsec_nanos t)\<rparr>"

definition pb_now :: "datetime \<Rightarrow> timestamp_pb" where
  "pb_now t = \<lparr>pb_seconds = timestamp t, pb_nanos = 0\<rparr>"

text \<open>\<open>Option::unwrap_or_default\<close> on strings and byte vectors.\<close>

definition unwrap_or_default :: "'a list option \<Rightarrow> 'a list" where
  "unwrap_or_default x = (case x of None \<Rightarrow> [] | Some s \<Rightarrow> s)"

lemma unwrap_or_default_simps [simp]:
  "unwrap_or_default None = []" "unwrap_or_default (Some s) = s"
  by (simp_all add: unwrap_or_default_def)

end
