(* ===== verification/Metrics.thy ===== *)
theory Metrics
  imports Lanes Wire "HOL-Library.Char_ord" "HOL-Library.List_Lexorder" "HOL-Library.Product_Lexorder"
begin

text \<open>
  \<open>src/metrics.rs\<close>: the tool-call metrics lane. The state of \<open>MetricsBuffer\<close> is the
  record \<open>metrics_buffer\<close>, its methods are the functions below, and the mutex makes each
  of them one atomic step. The clock (\<open>chrono::Utc::now\<close>) is an argument. The flush loop
  runs against an environment that says, for each send, what was recorded before and during it and
  how it ended, so producers interleave with the flush at every await point.
\<close>

section \<open>Data\<close>

definition DEFAULT_BUFFER_CAP :: nat where "DEFAULT_BUFFER_CAP = 5000"
definition EARLY_FLUSH_SPACING :: duration where "EARLY_FLUSH_SPACING = from_secs 1"
definition DEFAULT_BATCH_CAP :: nat where "DEFAULT_BATCH_CAP = 500"
definition DEFAULT_FLUSH_INTERVAL :: duration where "DEFAULT_FLUSH_INTERVAL = from_secs 30"

datatype sample_outcome =
    Ok | ClientError | ServerError | PolicyDenied | QuotaExceeded | IdempotentReplay

record tool_call_sample =
  plugin_id :: string
  tool_name :: string
  binding_id :: "string option"
  started_at :: datetime
  call_duration :: duration
  outcome :: sample_outcome
  error_code :: "string option"
  error_hash :: "string option"
  request_id :: "string option"
  caller_subject :: "string option"
  request_payload :: "bytes option"
  response_payload :: "bytes option"
  payload_encrypted :: bool
  dek_version :: u32

definition is_billable :: "sample_outcome \<Rightarrow> bool" where
  "is_billable oc = (\<not> (oc = PolicyDenied \<or> oc = QuotaExceeded \<or> oc = IdempotentReplay))"

fun outcome_to_proto :: "sample_outcome \<Rightarrow> tool_outcome" where
  "outcome_to_proto Ok = TOk"
| "outcome_to_proto ClientError = TClientError"
| "outcome_to_proto ServerError = TServerError"
| "outcome_to_proto PolicyDenied = TPolicyDenied"
| "outcome_to_proto QuotaExceeded = TQuotaExceeded"
| "outcome_to_proto IdempotentReplay = TIdempotentReplay"

record event_counts =
  delivered :: u64
  abandoned :: u64
  ingested :: u64
  ec_bytes :: u64

definition event_counts_default :: event_counts where
  "event_counts_default = \<lparr>delivered = 0, abandoned = 0, ingested = 0, ec_bytes = 0\<rparr>"

definition event_counts_add :: "event_counts \<Rightarrow> event_counts \<Rightarrow> event_counts" where
  "event_counts_add self other =
     \<lparr>delivered = sat_add (delivered self) (delivered other),
      abandoned = sat_add (abandoned self) (abandoned other),
      ingested = sat_add (ingested self) (ingested other),
      ec_bytes = sat_add (ec_bytes self) (ec_bytes other)\<rparr>"

type_synonym event_key = "string \<times> string"

text \<open>The \<open>BTreeMap\<close> of the rollup: its entries in ascending key order.\<close>

record events_rollup =
  since :: "datetime option"
  counts :: "(event_key \<times> event_counts) list"

definition events_rollup_default :: events_rollup where
  "events_rollup_default = \<lparr>since = None, counts = []\<rparr>"

record event_usage =
  event_name :: string
  mode :: string
  usage_counts :: event_counts
  window_start :: datetime
  window_end :: datetime

record ring =
  samples :: "tool_call_sample list"
  non_billable :: nat

record drained =
  batch_samples :: "tool_call_sample list"
  batch_dropped_overflow :: u64
  batch_dropped_non_billable :: u64
  batch_seq :: u64
  batch_events :: "event_usage list"

text \<open>
  \<open>Inner\<close>. \<open>flush_early\<close> is the stored permit of the \<open>Notify\<close>: \<open>notify_one\<close>
  sets it, a completed \<open>notified\<close> takes it.
\<close>

record metrics_buffer =
  buf :: ring
  cap :: nat
  batch_cap :: nat
  flush_early_at :: nat
  flush_early :: bool
  dropped_overflow :: u64
  dropped_non_billable :: u64
  seq :: u64
  events :: events_rollup

section \<open>Operations\<close>

definition sample_billable :: "tool_call_sample \<Rightarrow> bool" where
  "sample_billable s = is_billable (outcome s)"

definition ring_push_back :: "tool_call_sample \<Rightarrow> ring \<Rightarrow> ring" where
  "ring_push_back s r = r\<lparr>non_billable := non_billable r + of_bool (\<not> is_billable (outcome s)),
                        samples := samples r @ [s]\<rparr>"

definition ring_push_front :: "tool_call_sample \<Rightarrow> ring \<Rightarrow> ring" where
  "ring_push_front s r = r\<lparr>non_billable := non_billable r + of_bool (\<not> is_billable (outcome s)),
                         samples := s # samples r\<rparr>"

definition ring_remove :: "nat \<Rightarrow> ring \<Rightarrow> tool_call_sample option \<times> ring" where
  "ring_remove i r =
     (if i < length (samples r)
      then let s = samples r ! i
           in (Some s, r\<lparr>samples := take i (samples r) @ drop (Suc i) (samples r),
                         non_billable := non_billable r - of_bool (\<not> is_billable (outcome s))\<rparr>)
      else (None, r))"

definition is_empty :: "drained \<Rightarrow> bool" where
  "is_empty d = (batch_samples d = [] \<and> batch_dropped_overflow d = 0
                 \<and> batch_dropped_non_billable d = 0 \<and> batch_events d = [])"

definition with_caps :: "nat \<Rightarrow> nat \<Rightarrow> metrics_buffer" where
  "with_caps c bc =
     \<lparr>buf = \<lparr>samples = [], non_billable = 0\<rparr>,
      cap = c,
      batch_cap = bc,
      flush_early_at = max (c - c div 5) 1,
      flush_early = False,
      dropped_overflow = 0,
      dropped_non_billable = 0,
      seq = 0,
      events = events_rollup_default\<rparr>"

definition new :: metrics_buffer where
  "new = with_caps DEFAULT_BUFFER_CAP DEFAULT_BATCH_CAP"

text \<open>\<open>entry(k).or_default().add(c)\<close> on the ordered map.\<close>

fun entry_add :: "event_key \<Rightarrow> event_counts \<Rightarrow> (event_key \<times> event_counts) list \<Rightarrow> (event_key \<times> event_counts) list" where
  "entry_add k c [] = [(k, event_counts_add event_counts_default c)]"
| "entry_add k c ((k', v) # m) =
     (if k = k' then (k', event_counts_add v c) # m
      else if k < k' then (k, event_counts_add event_counts_default c) # (k', v) # m
      else (k', v) # entry_add k c m)"

definition record_events :: "datetime \<Rightarrow> string \<Rightarrow> string \<Rightarrow> event_counts \<Rightarrow> metrics_buffer \<Rightarrow> metrics_buffer" where
  "record_events now name md c b =
     (if c = event_counts_default then b
      else b\<lparr>events := \<lparr>since = (case since (events b) of None \<Rightarrow> Some now | Some t \<Rightarrow> Some t),
                       counts = entry_add (name, md) c (counts (events b))\<rparr>\<rparr>)"

definition count_drop :: "sample_outcome \<Rightarrow> metrics_buffer \<Rightarrow> metrics_buffer" where
  "count_drop oc b =
     (if is_billable oc then b\<lparr>dropped_overflow := dropped_overflow b + 1\<rparr>
      else b\<lparr>dropped_non_billable := dropped_non_billable b + 1\<rparr>)"

fun position :: "('a \<Rightarrow> bool) \<Rightarrow> 'a list \<Rightarrow> nat option" where
  "position P [] = None"
| "position P (x # xs) = (if P x then Some 0 else map_option Suc (position P xs))"

definition victim :: "ring \<Rightarrow> nat" where
  "victim r =
     (if non_billable r > 0
      then (case position (\<lambda>s. \<not> is_billable (outcome s)) (samples r) of None \<Rightarrow> 0 | Some i \<Rightarrow> i)
      else 0)"

definition record_sample :: "tool_call_sample \<Rightarrow> metrics_buffer \<Rightarrow> metrics_buffer" where
  "record_sample s b0 =
     (let buffered = length (samples (buf b0));
          b = (if buffered + 1 \<ge> flush_early_at b0 then b0\<lparr>flush_early := True\<rparr> else b0)
      in if buffered \<ge> cap b
         then if \<not> is_billable (outcome s) then count_drop (outcome s) b
              else (case ring_remove (victim (buf b)) (buf b) of
                      (Some dropped, r) \<Rightarrow> count_drop (outcome dropped) (b\<lparr>buf := ring_push_back s r\<rparr>)
                    | (None, r) \<Rightarrow> b\<lparr>buf := ring_push_back s r\<rparr>)
         else b\<lparr>buf := ring_push_back s (buf b)\<rparr>)"

definition usage_of :: "datetime \<Rightarrow> datetime \<Rightarrow> event_key \<times> event_counts \<Rightarrow> event_usage" where
  "usage_of start fin e =
     \<lparr>event_name = fst (fst e), mode = snd (fst e), usage_counts = snd e,
      window_start = start, window_end = fin\<rparr>"

definition drain :: "datetime \<Rightarrow> metrics_buffer \<Rightarrow> drained \<times> metrics_buffer" where
  "drain now b =
     (let n = min (length (samples (buf b))) (batch_cap b);
          taken = take n (samples (buf b));
          drained_non_billable = cnt (\<lambda>s. \<not> is_billable (outcome s)) taken;
          rollup = events b;
          start = (case since rollup of None \<Rightarrow> now | Some t \<Rightarrow> t)
      in (\<lparr>batch_samples = taken,
           batch_dropped_overflow = dropped_overflow b,
           batch_dropped_non_billable = dropped_non_billable b,
           batch_seq = seq b + 1,
           batch_events = map (usage_of start now) (counts rollup)\<rparr>,
          b\<lparr>buf := \<lparr>samples = drop n (samples (buf b)),
                   non_billable = non_billable (buf b) - drained_non_billable\<rparr>,
            dropped_overflow := 0,
            dropped_non_billable := 0,
            seq := seq b + 1,
            events := events_rollup_default\<rparr>))"


text \<open>The loop of \<open>requeue_front\<close> over the batch, newest sample first.\<close>

fun requeue_samples :: "tool_call_sample list \<Rightarrow> metrics_buffer \<Rightarrow> metrics_buffer" where
  "requeue_samples [] b = b"
| "requeue_samples (s # ss) b =
     requeue_samples ss
       (if length (samples (buf b)) \<ge> cap b then count_drop (outcome s) b
        else b\<lparr>buf := ring_push_front s (buf b)\<rparr>)"

definition requeue_usage :: "event_usage \<Rightarrow> events_rollup \<Rightarrow> events_rollup" where
  "requeue_usage u ev =
     \<lparr>since = Some (min (case since ev of None \<Rightarrow> window_start u | Some t \<Rightarrow> t) (window_start u)),
      counts = entry_add (event_name u, mode u) (usage_counts u) (counts ev)\<rparr>"

definition requeue_front :: "drained \<Rightarrow> metrics_buffer \<Rightarrow> metrics_buffer" where
  "requeue_front batch b =
     (let b1 = requeue_samples (rev (batch_samples batch)) b;
          b2 = b1\<lparr>dropped_overflow := dropped_overflow b1 + batch_dropped_overflow batch\<rparr>;
          b3 = b2\<lparr>dropped_non_billable := dropped_non_billable b2 + batch_dropped_non_billable batch\<rparr>
      in b3\<lparr>events := fold requeue_usage (batch_events batch) (events b3)\<rparr>)"

definition buffered_len :: "metrics_buffer \<Rightarrow> nat" where
  "buffered_len b = length (samples (buf b))"

text \<open>\<open>blake3_hex\<close> stands for \<open>blake3::hash(..).to_hex()\<close>.\<close>

definition hash_error :: "(string \<Rightarrow> string) \<Rightarrow> string \<Rightarrow> string option" where
  "hash_error blake3_hex msg = (if msg = [] then None else Some (blake3_hex msg))"

definition sample_to_proto :: "proto_enums \<Rightarrow> tool_call_sample \<Rightarrow> tool_invocation_sample" where
  "sample_to_proto pe s =
     \<lparr>tis_plugin_id = plugin_id s,
      tis_tool_name = tool_name s,
      tis_binding_id = unwrap_or_default (binding_id s),
      tis_started_at = Some (pb_of (started_at s)),
      tis_duration_ms = word_of_nat (min (as_millis (call_duration s)) (2 ^ 32 - 1)),
      tis_outcome = outcome_i32 pe (outcome_to_proto (outcome s)),
      tis_error_code = unwrap_or_default (error_code s),
      tis_error_hash = unwrap_or_default (error_hash s),
      tis_request_id = unwrap_or_default (request_id s),
      tis_caller_subject = unwrap_or_default (caller_subject s),
      tis_request_payload = unwrap_or_default (request_payload s),
      tis_response_payload = unwrap_or_default (response_payload s),
      tis_payload_encrypted = payload_encrypted s,
      tis_dek_version = (if payload_encrypted s then dek_version s else 0)\<rparr>"

definition usage_to_proto :: "event_usage \<Rightarrow> event_usage_sample" where
  "usage_to_proto u =
     \<lparr>eus_event_name = event_name u,
      eus_mode = mode u,
      eus_delivered = delivered (usage_counts u),
      eus_abandoned = abandoned (usage_counts u),
      eus_ingested = ingested (usage_counts u),
      eus_bytes = ec_bytes (usage_counts u),
      eus_window_start = Some (pb_of (window_start u)),
      eus_window_end = Some (pb_of (window_end u))\<rparr>"

definition batch_to_message :: "proto_enums \<Rightarrow> datetime \<Rightarrow> drained \<Rightarrow> agent_message option" where
  "batch_to_message pe now batch =
     (if is_empty batch then None
      else Some (MetricsReport
        \<lparr>mr_at = Some (pb_now now),
         mr_seq = batch_seq batch,
         mr_invocations = map (sample_to_proto pe) (batch_samples batch),
         mr_dropped_overflow = batch_dropped_overflow batch,
         mr_dropped_non_billable = batch_dropped_non_billable batch,
         mr_events = map usage_to_proto (batch_events batch)\<rparr>))"

section \<open>The flush loop\<close>

text \<open>What producers may do while the flush task is suspended or between two of its steps.\<close>

datatype producer_op =
    RecordCall tool_call_sample
  | RecordEvents datetime string string event_counts

fun produce :: "producer_op \<Rightarrow> metrics_buffer \<Rightarrow> metrics_buffer" where
  "produce (RecordCall s) b = record_sample s b"
| "produce (RecordEvents now name md c) b = record_events now name md c b"

text \<open>
  How \<open>out_tx.send(msg).await\<close> ends: delivered to the outbound channel, refused because the
  channel is closed, or the task is aborted while it waits.
\<close>

datatype send_outcome = Sent | Closed | Aborted

record send_env =
  before_drain :: "producer_op list"
  clock :: datetime
  during_send :: "producer_op list"
  send_ends :: send_outcome

datatype flush_end = Ticked | Stopped | Cancelled

text \<open>
  \<open>InFlight\<close>: dropping the guard returns a batch that is still armed and not empty.
\<close>

definition in_flight_drop :: "drained option \<Rightarrow> metrics_buffer \<Rightarrow> metrics_buffer" where
  "in_flight_drop batch b =
     (case batch of None \<Rightarrow> b | Some d \<Rightarrow> if is_empty d then b else requeue_front d b)"

definition disarm :: "drained option \<Rightarrow> drained option" where
  "disarm batch = None"

definition batches_per_tick :: "metrics_buffer \<Rightarrow> nat" where
  "batches_per_tick b =
     (let k = max (batch_cap b) 1 in max ((cap b + k - 1) div k) 1)"

text \<open>
  What a run of the flush task shows from outside: the batches that were sent, each with the report
  it became, the buffer afterwards, how the run ended, and the producer operations that took place
  meanwhile.
\<close>

record flush_result =
  shipped :: "(drained \<times> agent_message) list"
  after :: metrics_buffer
  ended :: flush_end
  meanwhile :: "producer_op list"

text \<open>
  The inner loop of one tick: up to \<open>n\<close> batches, the \<open>i\<close>-th against environment
  \<open>env i\<close>.
\<close>

fun flush_batches :: "proto_enums \<Rightarrow> nat \<Rightarrow> (nat \<Rightarrow> send_env) \<Rightarrow> metrics_buffer \<Rightarrow> flush_result" where
  "flush_batches pe 0 env b = \<lparr>shipped = [], after = b, ended = Ticked, meanwhile = []\<rparr>"
| "flush_batches pe (Suc n) env b =
     (let e = env 0;
          (d, b1) = drain (clock e) (fold produce (before_drain e) b);
          next_batch = (\<lambda>sent ops b'.
             if length (batch_samples d) < batch_cap b'
             then \<lparr>shipped = sent, after = b', ended = Ticked, meanwhile = ops\<rparr>
             else let r = flush_batches pe n (\<lambda>i. env (Suc i)) b'
                  in r\<lparr>shipped := sent @ shipped r, meanwhile := ops @ meanwhile r\<rparr>)
      in case batch_to_message pe (clock e) d of
           None \<Rightarrow> next_batch [] (before_drain e) (in_flight_drop (disarm (Some d)) b1)
         | Some msg \<Rightarrow>
             (let b2 = fold produce (during_send e) b1;
                  ops = before_drain e @ during_send e
              in case send_ends e of
                   Sent \<Rightarrow> next_batch [(d, msg)] ops (in_flight_drop (disarm (Some d)) b2)
                 | Closed \<Rightarrow> \<lparr>shipped = [], after = in_flight_drop (Some d) b2, ended = Stopped, meanwhile = ops\<rparr>
                 | Aborted \<Rightarrow> \<lparr>shipped = [], after = in_flight_drop (Some d) b2, ended = Cancelled, meanwhile = ops\<rparr>))"

record tick_env =
  sends :: "nat \<Rightarrow> send_env"
  idle :: "producer_op list"
  woken_early :: bool

text \<open>
  \<open>flush_loop\<close>, observed for at most \<open>k\<close> ticks. \<open>Ticked\<close> says that the task is still there
  at the end of them, waiting for its next tick with no batch in flight.
\<close>

fun flush_loop :: "proto_enums \<Rightarrow> nat \<Rightarrow> (nat \<Rightarrow> tick_env) \<Rightarrow> metrics_buffer \<Rightarrow> flush_result" where
  "flush_loop pe 0 env b = \<lparr>shipped = [], after = b, ended = Ticked, meanwhile = []\<rparr>"
| "flush_loop pe (Suc k) env b =
     (let t = env 0;
          r = flush_batches pe (batches_per_tick b) (sends t) b
      in if ended r = Ticked
         then let b2 = fold produce (idle t) (after r);
                  b3 = (if woken_early t \<and> flush_early b2 then b2\<lparr>flush_early := False\<rparr> else b2);
                  r' = flush_loop pe k (\<lambda>i. env (Suc i)) b3
              in r'\<lparr>shipped := shipped r @ shipped r', meanwhile := meanwhile r @ idle t @ meanwhile r'\<rparr>
         else r)"

text \<open>
  When the next flush starts: at the tick, or, when the early wake-up comes first, then but not
  before \<open>EARLY_FLUSH_SPACING\<close> after the flush that just ran started.
\<close>

definition next_flush_at :: "duration \<Rightarrow> duration \<Rightarrow> duration option \<Rightarrow> duration" where
  "next_flush_at started tick_at notified_at =
     (case notified_at of
        Some t \<Rightarrow> if t < tick_at then max t (started + EARLY_FLUSH_SPACING) else tick_at
      | None \<Rightarrow> tick_at)"


section \<open>The buffer invariant\<close>

text \<open>
  The cached count of non-billable samples is exact and the ring is within its cap. (A ring built
  with cap 0 still holds the last billable sample, hence \<open>max (cap b) 1\<close>.)
\<close>

abbreviation unbilled :: "tool_call_sample \<Rightarrow> bool" where
  "unbilled s \<equiv> \<not> is_billable (outcome s)"

definition metrics_inv :: "metrics_buffer \<Rightarrow> bool" where
  "metrics_inv b \<longleftrightarrow>
     non_billable (buf b) = cnt unbilled (samples (buf b))
     \<and> length (samples (buf b)) \<le> max (cap b) 1"

definition drops_of :: "bool \<Rightarrow> metrics_buffer \<Rightarrow> u64" where
  "drops_of c b = (if c then dropped_overflow b else dropped_non_billable b)"

definition batch_drops_of :: "bool \<Rightarrow> drained \<Rightarrow> u64" where
  "batch_drops_of c d = (if c then batch_dropped_overflow d else batch_dropped_non_billable d)"

lemma with_caps_sel [simp]:
  "samples (buf (with_caps c bc)) = []" "non_billable (buf (with_caps c bc)) = 0"
  "cap (with_caps c bc) = c" "batch_cap (with_caps c bc) = bc"
  "dropped_overflow (with_caps c bc) = 0" "dropped_non_billable (with_caps c bc) = 0"
  "seq (with_caps c bc) = 0" "events (with_caps c bc) = events_rollup_default"
  "flush_early_at (with_caps c bc) = max (c - c div 5) 1"
  by (simp_all add: with_caps_def)

lemma metrics_inv_with_caps [simp]: "metrics_inv (with_caps c bc)"
  by (simp add: metrics_inv_def)

lemma count_drop_sel [simp]:
  "buf (count_drop oc b) = buf b"
  "cap (count_drop oc b) = cap b"
  "batch_cap (count_drop oc b) = batch_cap b"
  "flush_early_at (count_drop oc b) = flush_early_at b"
  "flush_early (count_drop oc b) = flush_early b"
  "seq (count_drop oc b) = seq b"
  "events (count_drop oc b) = events b"
  "drops_of c (count_drop oc b) = drops_of c b + (if is_billable oc = c then 1 else 0)"
  by (simp_all add: count_drop_def drops_of_def)

lemma drops_of_update [simp]:
  "drops_of c (b\<lparr>buf := r\<rparr>) = drops_of c b"
  "drops_of c (b\<lparr>flush_early := f\<rparr>) = drops_of c b"
  "drops_of c (b\<lparr>events := ev\<rparr>) = drops_of c b"
  by (simp_all add: drops_of_def)

lemma ring_push_back_sel [simp]:
  "samples (ring_push_back s r) = samples r @ [s]"
  "non_billable (ring_push_back s r) = non_billable r + cnt unbilled [s]"
  by (simp_all add: ring_push_back_def)

lemma ring_push_front_sel [simp]:
  "samples (ring_push_front s r) = s # samples r"
  "non_billable (ring_push_front s r) = non_billable r + cnt unbilled [s]"
  by (simp_all add: ring_push_front_def)

lemma position_Some: "position P xs = Some i \<Longrightarrow> i < length xs \<and> P (xs ! i)"
  by (induction xs arbitrary: i) (auto split: if_splits)

lemma position_first: "position P xs = Some i \<Longrightarrow> j < i \<Longrightarrow> \<not> P (xs ! j)"
proof (induction xs arbitrary: i j)
  case (Cons x xs)
  then show ?case by (cases j) (auto split: if_splits)
qed simp

lemma position_None: "position P xs = None \<longleftrightarrow> cnt P xs = 0"
  by (induction xs) auto

lemma victim_in_range:
  assumes "samples r \<noteq> []"
  shows "victim r < length (samples r)"
  using assms by (auto simp: victim_def split: option.splits dest: position_Some)

lemma victim_unbilled:
  assumes "non_billable r = cnt unbilled (samples r)" and "non_billable r > 0"
  shows "unbilled (samples r ! victim r)"
  using assms position_None[of unbilled "samples r"] position_Some[of unbilled "samples r"]
  by (auto simp: victim_def split: option.splits)

lemma victim_oldest_unbilled:
  assumes "non_billable r > 0" and "j < victim r"
  shows "\<not> unbilled (samples r ! j)"
  using assms position_first by (fastforce simp: victim_def split: option.splits)

text \<open>
  The four things one call of \<open>record\<close> can do to the ring and the counters.
\<close>

lemma record_sample_room:
  assumes "length (samples (buf b)) < cap b"
  shows "buf (record_sample s b) = ring_push_back s (buf b)"
    and "drops_of c (record_sample s b) = drops_of c b"
  using assms by (simp_all add: record_sample_def Let_def)

lemma record_sample_refused:
  assumes "cap b \<le> length (samples (buf b))" and "unbilled s"
  shows "buf (record_sample s b) = buf b"
    and "drops_of c (record_sample s b) = drops_of c b + (if c then 0 else 1)"
  using assms by (simp_all add: record_sample_def Let_def)

lemma record_sample_replaces:
  assumes "cap b \<le> length (samples (buf b))" and "\<not> unbilled s" and "samples (buf b) \<noteq> []"
  defines "i \<equiv> victim (buf b)"
  shows "samples (buf (record_sample s b)) =
           take i (samples (buf b)) @ drop (Suc i) (samples (buf b)) @ [s]"
    and "non_billable (buf (record_sample s b)) =
           non_billable (buf b) - of_bool (unbilled (samples (buf b) ! i))"
    and "drops_of c (record_sample s b) =
           drops_of c b + (if is_billable (outcome (samples (buf b) ! i)) = c then 1 else 0)"
  using assms victim_in_range[OF assms(3)]
  by (simp_all add: record_sample_def Let_def ring_remove_def)

lemma record_sample_cap_zero:
  assumes "cap b \<le> length (samples (buf b))" and "\<not> unbilled s" and "samples (buf b) = []"
  shows "buf (record_sample s b) = ring_push_back s (buf b)"
    and "drops_of c (record_sample s b) = drops_of c b"
  using assms by (simp_all add: record_sample_def Let_def ring_remove_def victim_def)

lemma record_sample_config [simp]:
  "cap (record_sample s b) = cap b"
  "batch_cap (record_sample s b) = batch_cap b"
  "flush_early_at (record_sample s b) = flush_early_at b"
  "seq (record_sample s b) = seq b"
  "events (record_sample s b) = events b"
  by (simp_all add: record_sample_def Let_def ring_remove_def split: prod.splits option.splits)

lemma metrics_inv_record: "metrics_inv b \<Longrightarrow> metrics_inv (record_sample s b)"
proof -
  assume inv: "metrics_inv b"
  consider "length (samples (buf b)) < cap b"
    | "cap b \<le> length (samples (buf b))" "unbilled s"
    | "cap b \<le> length (samples (buf b))" "\<not> unbilled s" "samples (buf b) \<noteq> []"
    | "cap b \<le> length (samples (buf b))" "\<not> unbilled s" "samples (buf b) = []"
    by linarith
  then show ?thesis
  proof cases
    case 1
    with inv show ?thesis by (auto simp: metrics_inv_def record_sample_room)
  next
    case 2
    with inv show ?thesis by (simp add: metrics_inv_def record_sample_refused)
  next
    case 3
    let ?i = "victim (buf b)" and ?xs = "samples (buf b)"
    have i: "?i < length ?xs" using 3 by (simp add: victim_in_range)
    have "cnt unbilled (take ?i ?xs @ drop (Suc ?i) ?xs) = cnt unbilled ?xs - of_bool (unbilled (?xs ! ?i))"
      using cnt_remove_nth[OF i, of unbilled] by (simp split: if_splits)
    moreover have "length (samples (buf (record_sample s b))) = length ?xs"
      using i by (simp add: record_sample_replaces[OF 3])
    ultimately show ?thesis
      using inv 3 by (simp add: metrics_inv_def record_sample_replaces[OF 3])
  next
    case 4
    with inv show ?thesis by (auto simp: metrics_inv_def record_sample_cap_zero)
  qed
qed

lemma record_conserves:
  assumes "metrics_inv b"
  shows "of_nat (cnt (\<lambda>s. sample_billable s = c) (samples (buf (record_sample s b))))
           + drops_of c (record_sample s b) =
         of_nat (cnt (\<lambda>s. sample_billable s = c) (samples (buf b))) + drops_of c b
           + (if sample_billable s = c then 1 else 0 :: u64)"
proof -
  consider "length (samples (buf b)) < cap b"
    | "cap b \<le> length (samples (buf b))" "unbilled s"
    | "cap b \<le> length (samples (buf b))" "\<not> unbilled s" "samples (buf b) \<noteq> []"
    | "cap b \<le> length (samples (buf b))" "\<not> unbilled s" "samples (buf b) = []"
    by linarith
  then show ?thesis
  proof cases
    case 1
    then show ?thesis by (simp add: record_sample_room)
  next
    case 2
    then show ?thesis by (simp add: record_sample_refused sample_billable_def)
  next
    case 3
    let ?i = "victim (buf b)" and ?xs = "samples (buf b)"
    have "?i < length ?xs" using 3 by (simp add: victim_in_range)
    from cnt_remove_nth[OF this, of "\<lambda>s. sample_billable s = c", symmetric] show ?thesis
      by (simp add: record_sample_replaces[OF 3] sample_billable_def)
  next
    case 4
    then show ?thesis by (simp add: record_sample_cap_zero)
  qed
qed


subsection \<open>Draining and requeueing\<close>

lemma drain_sel [simp]:
  "batch_samples (fst (drain now b)) = take (batch_cap b) (samples (buf b))"
  "samples (buf (snd (drain now b))) = drop (batch_cap b) (samples (buf b))"
  "batch_drops_of c (fst (drain now b)) = drops_of c b"
  "drops_of c (snd (drain now b)) = 0"
  "batch_seq (fst (drain now b)) = seq b + 1"
  "seq (snd (drain now b)) = seq b + 1"
  "cap (snd (drain now b)) = cap b"
  "batch_cap (snd (drain now b)) = batch_cap b"
  "flush_early_at (snd (drain now b)) = flush_early_at b"
  "flush_early (snd (drain now b)) = flush_early b"
  "events (snd (drain now b)) = events_rollup_default"
  by (simp_all add: drain_def Let_def drops_of_def batch_drops_of_def min_def)

lemma drain_non_billable:
  "non_billable (buf (snd (drain now b))) =
     non_billable (buf b) - cnt unbilled (take (batch_cap b) (samples (buf b)))"
  by (simp add: drain_def Let_def min_def)

lemma metrics_inv_drain: "metrics_inv b \<Longrightarrow> metrics_inv (snd (drain now b))"
  using cnt_take_drop[of unbilled "batch_cap b" "samples (buf b)"]
  by (auto simp: metrics_inv_def drain_non_billable)

lemma requeue_samples_config [simp]:
  "cap (requeue_samples ss b) = cap b"
  "batch_cap (requeue_samples ss b) = batch_cap b"
  "flush_early_at (requeue_samples ss b) = flush_early_at b"
  "flush_early (requeue_samples ss b) = flush_early b"
  "seq (requeue_samples ss b) = seq b"
  "events (requeue_samples ss b) = events b"
  by (induction ss arbitrary: b) auto

lemma metrics_inv_requeue_samples: "metrics_inv b \<Longrightarrow> metrics_inv (requeue_samples ss b)"
proof (induction ss arbitrary: b)
  case (Cons s ss)
  then show ?case by (auto simp: metrics_inv_def intro!: Cons.IH)
qed simp

lemma requeue_samples_conserves:
  "of_nat (cnt (\<lambda>s. sample_billable s = c) (samples (buf (requeue_samples ss b))))
     + drops_of c (requeue_samples ss b) =
   of_nat (cnt (\<lambda>s. sample_billable s = c) (samples (buf b))) + drops_of c b
     + (of_nat (cnt (\<lambda>s. sample_billable s = c) ss) :: u64)"
  by (induction ss arbitrary: b) (simp_all add: sample_billable_def)

text \<open>The newest samples of a returned batch that fit, ahead of what is buffered.\<close>

lemma requeue_samples_buf:
  "samples (buf (requeue_samples ss b)) =
     rev (take (cap b - length (samples (buf b))) ss) @ samples (buf b)"
proof (induction ss arbitrary: b)
  case (Cons s ss)
  show ?case
  proof (cases "cap b \<le> length (samples (buf b))")
    case False
    then have "cap b - length (samples (buf b)) = Suc (cap b - Suc (length (samples (buf b))))"
      by simp
    with False show ?thesis by (simp add: Cons.IH)
  qed (simp add: Cons.IH)
qed simp

lemma requeue_front_sel [simp]:
  "buf (requeue_front d b) = buf (requeue_samples (rev (batch_samples d)) b)"
  "cap (requeue_front d b) = cap b"
  "batch_cap (requeue_front d b) = batch_cap b"
  "flush_early_at (requeue_front d b) = flush_early_at b"
  "flush_early (requeue_front d b) = flush_early b"
  "seq (requeue_front d b) = seq b"
  "drops_of c (requeue_front d b) =
     drops_of c (requeue_samples (rev (batch_samples d)) b) + batch_drops_of c d"
  "events (requeue_front d b) = fold requeue_usage (batch_events d) (events b)"
  by (simp_all add: requeue_front_def Let_def drops_of_def batch_drops_of_def)

lemma metrics_inv_requeue: "metrics_inv b \<Longrightarrow> metrics_inv (requeue_front d b)"
  using metrics_inv_requeue_samples[of b "rev (batch_samples d)"] by (simp add: metrics_inv_def)

interpretation metrics_lane: returnable_lane metrics_inv "\<lambda>b. samples (buf b)" "drops_of c"
    "\<lambda>s. sample_billable s = c" record_sample drain batch_samples "batch_drops_of c" requeue_front
  for c :: bool
proof (unfold_locales, goal_cases)
  case (1 b x) then show ?case by (rule metrics_inv_record)
next
  case (2 b t) then show ?case by (rule metrics_inv_drain)
next
  case (3 b x) then show ?case by (rule record_conserves)
next
  case (7 b r) then show ?case by (rule metrics_inv_requeue)
next
  case (8 b r) then show ?case
    using requeue_samples_conserves[of c "rev (batch_samples r)" b] by (simp add: algebra_simps)
qed simp_all

abbreviation owed :: "bool \<Rightarrow> metrics_buffer \<Rightarrow> u64" where
  "owed c b \<equiv> metrics_lane.owed c b"

abbreviation worth :: "bool \<Rightarrow> drained \<Rightarrow> u64" where
  "worth c d \<equiv> metrics_lane.worth c d"

text \<open>The billable calls a batch accounts for and those a buffer still owes, drops included.\<close>

definition billable_in :: "drained \<Rightarrow> u64" where
  "billable_in d = of_nat (cnt sample_billable (batch_samples d)) + batch_dropped_overflow d"

definition billable_owed :: "metrics_buffer \<Rightarrow> u64" where
  "billable_owed b = of_nat (cnt sample_billable (samples (buf b))) + dropped_overflow b"

lemma owed_billable: "owed True b = billable_owed b" "worth True d = billable_in d"
  unfolding metrics_lane.owed_def metrics_lane.worth_def
  by (simp_all add: billable_owed_def billable_in_def drops_of_def batch_drops_of_def)

subsection \<open>Producers and the in-flight guard\<close>

definition produced :: "producer_op list \<Rightarrow> tool_call_sample list" where
  "produced ops = List.map_filter (\<lambda>op. case op of RecordCall s \<Rightarrow> Some s | _ \<Rightarrow> None) ops"

lemma produced_simps [simp]:
  "produced [] = []"
  "produced (RecordCall s # ops) = s # produced ops"
  "produced (RecordEvents now n m cs # ops) = produced ops"
  "produced (xs @ ys) = produced xs @ produced ys"
  by (simp_all add: produced_def map_filter_def)

lemma record_events_sel [simp]:
  "buf (record_events now n m cs b) = buf b"
  "cap (record_events now n m cs b) = cap b"
  "batch_cap (record_events now n m cs b) = batch_cap b"
  "flush_early_at (record_events now n m cs b) = flush_early_at b"
  "flush_early (record_events now n m cs b) = flush_early b"
  "seq (record_events now n m cs b) = seq b"
  "drops_of c (record_events now n m cs b) = drops_of c b"
  by (simp_all add: record_events_def)

lemma metrics_inv_frame:
  "buf b' = buf b \<Longrightarrow> cap b' = cap b \<Longrightarrow> metrics_inv b' \<longleftrightarrow> metrics_inv b"
  by (simp add: metrics_inv_def)

lemma owed_frame:
  "buf b' = buf b \<Longrightarrow> drops_of c b' = drops_of c b \<Longrightarrow> owed c b' = owed c b"
  by (simp add: metrics_lane.owed_def)

lemma produce_config [simp]:
  "cap (produce op b) = cap b" "batch_cap (produce op b) = batch_cap b" "seq (produce op b) = seq b"
  by (cases op; simp)+

lemma produces_config [simp]:
  "cap (fold produce ops b) = cap b" "batch_cap (fold produce ops b) = batch_cap b"
  "seq (fold produce ops b) = seq b"
  by (induction ops arbitrary: b) simp_all

lemma metrics_inv_produce: "metrics_inv b \<Longrightarrow> metrics_inv (produce op b)"
  by (cases op) (simp_all add: metrics_inv_record metrics_inv_frame[of "record_events _ _ _ _ b" b])

lemma metrics_inv_produces: "metrics_inv b \<Longrightarrow> metrics_inv (fold produce ops b)"
  by (induction ops arbitrary: b) (simp_all add: metrics_inv_produce)

lemma owed_produces:
  "metrics_inv b \<Longrightarrow>
     owed c (fold produce ops b) = owed c b + of_nat (cnt (\<lambda>s. sample_billable s = c) (produced ops))"
proof (induction ops arbitrary: b)
  case (Cons op ops)
  show ?case
  proof (cases op)
    case (RecordCall s)
    with Cons.prems Cons.IH[of "record_sample s b"] show ?thesis
      by (simp add: metrics_inv_record metrics_lane.owed_put)
  next
    case (RecordEvents now n m cs)
    with Cons.prems Cons.IH[of "record_events now n m cs b"] show ?thesis
      by (simp add: metrics_inv_frame[of "record_events now n m cs b" b]
          owed_frame[of "record_events now n m cs b" b])
  qed
qed simp

lemma batch_to_message_None: "batch_to_message pe now d = None \<longleftrightarrow> is_empty d"
  by (simp add: batch_to_message_def)

lemma is_empty_worth: "is_empty d \<Longrightarrow> worth c d = 0"
  by (simp add: is_empty_def metrics_lane.worth_def batch_drops_of_def)

lemma in_flight_drop_armed:
  assumes "metrics_inv b"
  shows "metrics_inv (in_flight_drop (Some d) b)"
    and "owed c (in_flight_drop (Some d) b) = owed c b + worth c d"
  using assms metrics_lane.owed_give[OF assms, of c d]
  by (auto simp: in_flight_drop_def metrics_inv_requeue is_empty_worth)

lemma in_flight_drop_disarmed [simp]: "in_flight_drop (disarm d) b = b"
  by (simp add: in_flight_drop_def disarm_def)


section \<open>The ledger of the flush loop\<close>

text \<open>
  A run is balanced when, for each class of samples, what the buffer owed before plus what was
  recorded meanwhile is what was shipped plus what the buffer owes after.
\<close>

definition balanced :: "metrics_buffer \<Rightarrow> flush_result \<Rightarrow> bool" where
  "balanced b r \<longleftrightarrow> metrics_inv (after r) \<and>
     (\<forall>c. owed c b + of_nat (cnt (\<lambda>s. sample_billable s = c) (produced (meanwhile r))) =
          sum_list (map (worth c \<circ> fst) (shipped r)) + owed c (after r))"

lemma balanced_step:
  assumes "metrics_inv b" and "after r = fold produce ops b" and "meanwhile r = ops" and "shipped r = []"
  shows "balanced b r"
  using assms by (simp add: balanced_def metrics_inv_produces owed_produces)

lemma balanced_seq:
  assumes "balanced b r" and "balanced (after r) r'"
  shows "balanced b (r'\<lparr>shipped := shipped r @ shipped r', meanwhile := meanwhile r @ meanwhile r'\<rparr>)"
  using assms by (auto simp: balanced_def intro: ledger_trans)

lemma flush_batches_balanced: "metrics_inv b \<Longrightarrow> balanced b (flush_batches pe n env b)"
proof (induction n arbitrary: env b)
  case 0
  then show ?case by (simp add: balanced_def)
next
  case (Suc n)
  let ?e = "env 0"
  let ?b0 = "fold produce (before_drain ?e) b"
  obtain d b1 where dr: "drain (clock ?e) ?b0 = (d, b1)" by (cases "drain (clock ?e) ?b0")
  let ?b2 = "fold produce (during_send ?e) b1"
  have i0: "metrics_inv ?b0" using Suc.prems by (rule metrics_inv_produces)
  have i1: "metrics_inv b1" using metrics_lane.inv_take[OF i0, of "clock ?e"] dr by simp
  have i2: "metrics_inv ?b2" using i1 by (rule metrics_inv_produces)
  have owed_b: "owed c b + of_nat (cnt (\<lambda>s. sample_billable s = c) (produced (before_drain ?e))) =
      worth c d + owed c b1" for c
    using owed_produces[OF Suc.prems] metrics_lane.owed_take[OF i0, of c "clock ?e"] dr by simp
  note owed_2 = owed_produces[OF i1, of _ "during_send ?e"]
  have continue: "balanced b (let r = flush_batches pe n (\<lambda>i. env (Suc i)) b'
      in r\<lparr>shipped := sent @ shipped r, meanwhile := ops @ meanwhile r\<rparr>)"
    if "balanced b \<lparr>shipped = sent, after = b', ended = Ticked, meanwhile = ops\<rparr>" for sent b' ops
    using balanced_seq[OF that] Suc.IH[of b' "\<lambda>i. env (Suc i)"] that
    by (simp add: balanced_def Let_def)
  have quiet: "balanced b \<lparr>shipped = [], after = b1, ended = Ticked, meanwhile = before_drain ?e\<rparr>"
    if "is_empty d"
    using i1 owed_b is_empty_worth[OF that] by (simp add: balanced_def)
  have sent: "balanced b \<lparr>shipped = [(d, msg)], after = ?b2, ended = Ticked,
      meanwhile = before_drain ?e @ during_send ?e\<rparr>" for msg
    using i2 owed_b owed_2 by (simp add: balanced_def ledger_trans)
  have returned: "balanced b \<lparr>shipped = [], after = in_flight_drop (Some d) ?b2, ended = fin,
      meanwhile = before_drain ?e @ during_send ?e\<rparr>" for fin
    using in_flight_drop_armed[OF i2, where d = d] owed_b owed_2
    by (simp add: balanced_def)
  show ?case
    using continue[OF quiet] continue[OF sent] quiet sent returned
    by (auto simp: dr Let_def batch_to_message_None split: option.split send_outcome.split)
qed

lemma flush_loop_balanced: "metrics_inv b \<Longrightarrow> balanced b (flush_loop pe k env b)"
proof (induction k arbitrary: env b)
  case 0
  then show ?case by (simp add: balanced_def)
next
  case (Suc k)
  let ?t = "env 0"
  let ?r = "flush_batches pe (batches_per_tick b) (sends ?t) b"
  let ?b2 = "fold produce (idle ?t) (after ?r)"
  let ?b3 = "if woken_early ?t \<and> flush_early ?b2 then ?b2\<lparr>flush_early := False\<rparr> else ?b2"
  let ?r1 = "?r\<lparr>after := ?b3, meanwhile := meanwhile ?r @ idle ?t\<rparr>"
  have r: "balanced b ?r" using Suc.prems by (rule flush_batches_balanced)
  then have ia: "metrics_inv (after ?r)" by (simp add: balanced_def)
  have b3: "metrics_inv ?b3" "owed c ?b3 = owed c ?b2" for c
    using metrics_inv_produces[OF ia] by (simp_all add: metrics_inv_def metrics_lane.owed_def)
  have "owed c b + of_nat (cnt (\<lambda>s. sample_billable s = c) (produced (meanwhile ?r @ idle ?t))) =
      sum_list (map (worth c \<circ> fst) (shipped ?r)) + owed c ?b3" for c
  proof -
    have "owed c b + of_nat (cnt (\<lambda>s. sample_billable s = c) (produced (meanwhile ?r))) =
        sum_list (map (worth c \<circ> fst) (shipped ?r)) + owed c (after ?r)"
      using r by (simp add: balanced_def)
    then show ?thesis
      by (simp only: b3(2) owed_produces[OF ia, of c "idle ?t"] produced_simps(4) cnt_simps(3)
          of_nat_add flip: add.assoc)
  qed
  with b3(1) have "balanced b ?r1" by (simp add: balanced_def)
  from balanced_seq[OF this, of "flush_loop pe k (\<lambda>i. env (Suc i)) ?b3"] Suc.IH[OF b3(1)] r
  show ?case
    by (simp add: Let_def)
qed


section \<open>The event rollup\<close>

text \<open>Keys ascend strictly, and the window start is set exactly while something is counted.\<close>

definition rollup_inv :: "events_rollup \<Rightarrow> bool" where
  "rollup_inv ev \<longleftrightarrow> sorted_wrt (<) (map fst (counts ev)) \<and> (counts ev = [] \<longleftrightarrow> since ev = None)"

lemma event_counts_add_default [simp]:
  "event_counts_add event_counts_default c = c" "event_counts_add c event_counts_default = c"
  by (simp_all add: event_counts_add_def event_counts_default_def)

lemma event_counts_add_commute: "event_counts_add a b = event_counts_add b a"
  by (simp add: event_counts_add_def sat_add_commute)

lemma event_counts_add_assoc:
  "event_counts_add (event_counts_add a b) c = event_counts_add a (event_counts_add b c)"
  by (simp add: event_counts_add_def sat_add_assoc)

lemma entry_add_keys: "fst ` set (entry_add k c m) = insert k (fst ` set m)"
  by (induction k c m rule: entry_add.induct) auto

lemma entry_add_nonempty [simp]: "entry_add k c m \<noteq> []"
  by (induction k c m rule: entry_add.induct) auto

lemma entry_add_sorted:
  "sorted_wrt (<) (map fst m) \<Longrightarrow> sorted_wrt (<) (map fst (entry_add k c m))"
proof (induction k c m rule: entry_add.induct)
  case (2 k c k' v m)
  have "k' < x" if "k' < k" "x \<in> fst ` set (entry_add k c m)" for x
    using that 2(2) by (auto simp: entry_add_keys)
  with 2 show ?case by (auto simp: not_less le_less)
qed simp

lemma entry_add_lookup:
  "sorted_wrt (<) (map fst m) \<Longrightarrow>
     map_of (entry_add k c m) =
     (map_of m)(k \<mapsto> event_counts_add (case map_of m k of None \<Rightarrow> event_counts_default | Some v \<Rightarrow> v) c)"
proof (induction k c m rule: entry_add.induct)
  case (2 k c k' v m)
  have "map_of m k = None" if "k < k'"
    using 2(2) that by (fastforce simp: map_of_eq_None_iff)
  with 2 show ?case by (auto simp: fun_eq_iff)
qed (simp add: fun_eq_iff)

lemma entry_add_last:
  "\<forall>k' \<in> set (map fst m). k' < k \<Longrightarrow> entry_add k c m = m @ [(k, c)]"
  by (induction m) auto

lemma rollup_inv_default [simp]: "rollup_inv events_rollup_default"
  by (simp add: rollup_inv_def events_rollup_default_def)

lemma rollup_inv_record_events:
  "rollup_inv (events b) \<Longrightarrow> rollup_inv (events (record_events now n m c b))"
  by (auto simp: rollup_inv_def record_events_def entry_add_sorted split: option.splits)

lemma rollup_inv_requeue_usage: "rollup_inv ev \<Longrightarrow> rollup_inv (requeue_usage u ev)"
  by (simp add: rollup_inv_def requeue_usage_def entry_add_sorted)

lemma requeue_usages_rebuild:
  assumes "sorted_wrt (<) (map fst (done @ todo))"
  shows "fold requeue_usage (map (usage_of start fin) todo) \<lparr>since = Some start, counts = done\<rparr> =
         \<lparr>since = Some start, counts = done @ todo\<rparr>"
  using assms
proof (induction todo arbitrary: "done")
  case (Cons e todo)
  have "requeue_usage (usage_of start fin e) \<lparr>since = Some start, counts = done\<rparr> =
        \<lparr>since = Some start, counts = done @ [e]\<rparr>"
    using Cons.prems by (auto simp: requeue_usage_def usage_of_def sorted_wrt_append entry_add_last)
  then show ?case using Cons.IH[of "done @ [e]"] Cons.prems by simp
qed simp


section \<open>What one tick ships\<close>

text \<open>
  A quiet environment: nothing is recorded while the tick runs and every send succeeds.
\<close>

definition quiet_env :: "(nat \<Rightarrow> send_env) \<Rightarrow> bool" where
  "quiet_env env \<longleftrightarrow> (\<forall>i. before_drain (env i) = [] \<and> during_send (env i) = [] \<and> send_ends (env i) = Sent)"

abbreviation shipped_samples :: "flush_result \<Rightarrow> tool_call_sample list" where
  "shipped_samples r \<equiv> concat (map (batch_samples \<circ> fst) (shipped r))"

lemma quiet_env_Suc: "quiet_env env \<Longrightarrow> quiet_env (\<lambda>i. env (Suc i))"
  by (simp add: quiet_env_def)

lemma flush_batches_quiet:
  assumes "quiet_env env" and "0 < batch_cap b"
  shows "ended (flush_batches pe n env b) = Ticked
    \<and> shipped_samples (flush_batches pe n env b) = take (n * batch_cap b) (samples (buf b))
    \<and> samples (buf (after (flush_batches pe n env b))) = drop (n * batch_cap b) (samples (buf b))
    \<and> meanwhile (flush_batches pe n env b) = []"
  using assms
proof (induction n arbitrary: env b)
  case (Suc n)
  let ?k = "batch_cap b"
  have e: "before_drain (env 0) = []" "during_send (env 0) = []" "send_ends (env 0) = Sent"
    using Suc.prems(1) by (simp_all add: quiet_env_def)
  obtain d b1 where dr: "drain (clock (env 0)) b = (d, b1)" by (cases "drain (clock (env 0)) b")
  have d: "batch_samples d = take ?k (samples (buf b))" "samples (buf b1) = drop ?k (samples (buf b))"
    "batch_cap b1 = ?k"
    using drain_sel(1,2,8)[of "clock (env 0)" b] by (simp_all add: dr)
  note IH = Suc.IH[OF quiet_env_Suc[OF Suc.prems(1)], of b1, unfolded d, OF Suc.prems(2)]
  show ?case
  proof (cases "length (samples (buf b)) < ?k")
    case True
    then show ?thesis
      by (auto simp: Let_def e dr d batch_to_message_def is_empty_def)
  next
    case False
    have "take ?k (samples (buf b)) @ take (n * ?k) (drop ?k (samples (buf b))) =
        take (?k + n * ?k) (samples (buf b))"
      by (simp add: take_add)
    with False IH show ?thesis
      by (auto simp: Let_def e dr d batch_to_message_def is_empty_def add.commute)
  qed
qed simp

lemma batches_per_tick_covers: "cap b \<le> batches_per_tick b * max (batch_cap b) 1"
proof -
  let ?k = "max (batch_cap b) 1"
  have "cap b \<le> (cap b + ?k - 1) div ?k * ?k"
    using div_mult_mod_eq[of "cap b + ?k - 1" ?k] mod_less_divisor[of ?k "cap b + ?k - 1"] by linarith
  also have "\<dots> \<le> max ((cap b + ?k - 1) div ?k) 1 * ?k" by (rule mult_le_mono1) simp
  finally show ?thesis by (simp add: batches_per_tick_def Let_def)
qed

section \<open>What every shipped report looks like\<close>

text \<open>
  A run is well reported when every batch it shipped holds at most \<open>batch_cap\<close> samples and
  was sent as its own report, and the sequence numbers of the shipped batches are increasing offsets
  from the buffer's counter (a drain that ships nothing still takes a number).
\<close>

definition reported :: "proto_enums \<Rightarrow> metrics_buffer \<Rightarrow> flush_result \<Rightarrow> bool" where
  "reported pe b r \<longleftrightarrow> batch_cap (after r) = batch_cap b \<and> cap (after r) = cap b \<and>
     list_all (\<lambda>(d, m). length (batch_samples d) \<le> batch_cap b \<and> (\<exists>now. batch_to_message pe now d = Some m)) (shipped r)"

definition numbered :: "metrics_buffer \<Rightarrow> flush_result \<Rightarrow> bool" where
  "numbered b r \<longleftrightarrow>
     (\<exists>ks n. sorted_wrt (<) ks \<and> (\<forall>k \<in> set ks. 0 < k \<and> k \<le> n) \<and>
        map (batch_seq \<circ> fst) (shipped r) = map (\<lambda>k. seq b + of_nat k) ks \<and>
        seq (after r) = seq b + of_nat n)"

lemma reported_seq:
  assumes "reported pe b r" and "reported pe (after r) r'"
  shows "reported pe b (r'\<lparr>shipped := shipped r @ shipped r', meanwhile := ops\<rparr>)"
  using assms by (simp add: reported_def)

lemma numbered_seq:
  assumes "numbered b r" and "numbered (after r) r'"
  shows "numbered b (r'\<lparr>shipped := shipped r @ shipped r', meanwhile := ops\<rparr>)"
proof -
  from assms(1) obtain ks n where
    1: "sorted_wrt (<) ks" "\<forall>k \<in> set ks. 0 < k \<and> k \<le> n"
      "map (batch_seq \<circ> fst) (shipped r) = map (\<lambda>k. seq b + of_nat k) ks" "seq (after r) = seq b + of_nat n"
    by (auto simp: numbered_def)
  from assms(2) obtain ks' n' where
    2: "sorted_wrt (<) ks'" "\<forall>k \<in> set ks'. 0 < k \<and> k \<le> n'"
      "map (batch_seq \<circ> fst) (shipped r') = map (\<lambda>k. seq (after r) + of_nat k) ks'"
      "seq (after r') = seq (after r) + of_nat n'"
    by (auto simp: numbered_def)
  have "sorted_wrt (<) (ks @ map ((+) n) ks')"
    using 1(1,2) 2(1,2) by (fastforce simp: sorted_wrt_append sorted_wrt_map)
  moreover have "\<forall>k \<in> set (ks @ map ((+) n) ks'). 0 < k \<and> k \<le> n + n'"
    using 1(2) 2(2) by fastforce
  moreover have "map (batch_seq \<circ> fst) (shipped r @ shipped r') =
      map (\<lambda>k. seq b + of_nat k) (ks @ map ((+) n) ks')"
    using 1(3,4) 2(3) by (simp add: add.assoc)
  moreover have "seq (after r') = seq b + of_nat (n + n')" using 1(4) 2(4) by (simp add: add.assoc)
  ultimately show ?thesis unfolding numbered_def by (intro exI conjI) auto
qed

lemma in_flight_drop_config [simp]:
  "seq (in_flight_drop d b) = seq b" "batch_cap (in_flight_drop d b) = batch_cap b"
  "cap (in_flight_drop d b) = cap b"
  by (simp_all add: in_flight_drop_def split: option.splits)

lemma flush_batches_reported: "reported pe b (flush_batches pe n env b) \<and> numbered b (flush_batches pe n env b)"
proof (induction n arbitrary: env b)
  case 0
  show ?case by (auto simp: reported_def numbered_def intro!: exI[of _ "[]"] exI[of _ 0])
next
  case (Suc n)
  let ?e = "env 0"
  let ?b0 = "fold produce (before_drain ?e) b"
  obtain d b1 where dr: "drain (clock ?e) ?b0 = (d, b1)" by (cases "drain (clock ?e) ?b0")
  have d: "batch_seq d = seq b + 1" "seq b1 = seq b + 1" "batch_cap b1 = batch_cap b" "cap b1 = cap b"
    "length (batch_samples d) \<le> batch_cap b"
    using drain_sel(1,5,6,7,8)[of "clock ?e" ?b0] by (simp_all add: dr)
  have one: "numbered b \<lparr>shipped = sh, after = b', ended = fin, meanwhile = ops\<rparr>"
    if "seq b' = seq b + 1" "sh = [] \<or> (\<exists>m. sh = [(d, m)])" for sh b' fin ops
    unfolding numbered_def using that d(1)
    by (intro exI[of _ "map (\<lambda>_. 1) sh"] exI[of _ 1]) auto
  define rest where "rest b' = flush_batches pe n (\<lambda>i. env (Suc i)) b'" for b'
  have continue: "reported pe b (rest b'\<lparr>shipped := sent @ shipped (rest b'), meanwhile := ops'\<rparr>) \<and>
    numbered b (rest b'\<lparr>shipped := sent @ shipped (rest b'), meanwhile := ops'\<rparr>)"
    if "reported pe b \<lparr>shipped = sent, after = b', ended = Ticked, meanwhile = []\<rparr>"
      "numbered b \<lparr>shipped = sent, after = b', ended = Ticked, meanwhile = []\<rparr>" for sent b' ops'
    using reported_seq[OF that(1)] numbered_seq[OF that(2)] Suc.IH[of b' "\<lambda>i. env (Suc i)"]
    by (simp add: rest_def)
  have rep: "reported pe b \<lparr>shipped = [], after = b', ended = fin, meanwhile = ops\<rparr>"
    if "batch_cap b' = batch_cap b" "cap b' = cap b" for b' fin ops
    using that by (simp add: reported_def)
  have rep1: "reported pe b \<lparr>shipped = [(d, m)], after = b', ended = fin, meanwhile = ops\<rparr>"
    if "batch_cap b' = batch_cap b" "cap b' = cap b" "batch_to_message pe (clock ?e) d = Some m" for b' fin ops m
    using that d(5) by (auto simp: reported_def)
  show ?case
    using continue[of "[]", simplified] continue[of "[_]", simplified]
    by (simp add: dr Let_def d one rep rep1 flip: rest_def split: option.split send_outcome.split)
qed

lemma flush_loop_reported: "reported pe b (flush_loop pe k env b) \<and> numbered b (flush_loop pe k env b)"
proof (induction k arbitrary: env b)
  case 0
  show ?case by (auto simp: reported_def numbered_def intro!: exI[of _ "[]"] exI[of _ 0])
next
  case (Suc k)
  let ?t = "env 0"
  let ?r = "flush_batches pe (batches_per_tick b) (sends ?t) b"
  let ?b2 = "fold produce (idle ?t) (after ?r)"
  let ?b3 = "if woken_early ?t \<and> flush_early ?b2 then ?b2\<lparr>flush_early := False\<rparr> else ?b2"
  let ?r1 = "?r\<lparr>after := ?b3\<rparr>"
  have r: "reported pe b ?r" "numbered b ?r" using flush_batches_reported by auto
  have "reported pe b ?r1" "numbered b ?r1"
    using r by (simp_all add: reported_def numbered_def)
  with reported_seq[of pe b ?r1] numbered_seq[of b ?r1] Suc.IH[of ?b3 "\<lambda>i. env (Suc i)"]
  have "reported pe b (flush_loop pe k (\<lambda>i. env (Suc i)) ?b3\<lparr>shipped := shipped ?r @ shipped (flush_loop pe k (\<lambda>i. env (Suc i)) ?b3), meanwhile := ops\<rparr>)
    \<and> numbered b (flush_loop pe k (\<lambda>i. env (Suc i)) ?b3\<lparr>shipped := shipped ?r @ shipped (flush_loop pe k (\<lambda>i. env (Suc i)) ?b3), meanwhile := ops\<rparr>)" for ops
    by simp
  then show ?case using r by (simp add: Let_def)
qed

section \<open>Any sequence of operations\<close>

datatype buffer_op = Produce producer_op | Drain datetime | Requeue drained

fun buffer_step :: "buffer_op \<Rightarrow> metrics_buffer \<Rightarrow> metrics_buffer" where
  "buffer_step (Produce op) b = produce op b"
| "buffer_step (Drain now) b = snd (drain now b)"
| "buffer_step (Requeue d) b = requeue_front d b"

lemma rollup_inv_requeue_usages: "rollup_inv ev \<Longrightarrow> rollup_inv (fold requeue_usage us ev)"
  by (induction us arbitrary: ev) (auto simp: rollup_inv_requeue_usage)

lemma buffer_step_inv:
  assumes "metrics_inv b \<and> rollup_inv (events b)"
  shows "metrics_inv (buffer_step op b) \<and> rollup_inv (events (buffer_step op b))
    \<and> cap (buffer_step op b) = cap b"
proof (cases op)
  case (Produce p)
  with assms show ?thesis
    by (cases p) (simp_all add: metrics_inv_produce[of b p, simplified] metrics_inv_record
        rollup_inv_record_events metrics_inv_frame[of "record_events _ _ _ _ b" b])
qed (use assms in \<open>simp_all add: metrics_inv_drain metrics_inv_requeue rollup_inv_requeue_usages\<close>)

lemma buffer_steps_inv:
  "metrics_inv b \<and> rollup_inv (events b) \<Longrightarrow>
     metrics_inv (fold buffer_step ops b) \<and> rollup_inv (events (fold buffer_step ops b))
     \<and> cap (fold buffer_step ops b) = cap b"
proof (induction ops arbitrary: b)
  case (Cons op ops)
  then show ?case using buffer_step_inv[of b op] Cons.IH[of "buffer_step op b"] by simp
qed simp

section \<open>Properties\<close>

subsection \<open>Billing\<close>

text \<open>
  C4. No billable call is lost or counted twice. Start a flush loop on a fresh buffer of any size
  and let producers record at every point where they can run, let sends fail, the channel close or
  the task be aborted mid-send, for any number of ticks. The calls of a class (billable, or not)
  recorded meanwhile are exactly: those in the reports that were sent, plus the drops those reports
  carry for the class, plus those still buffered, plus the drops counted for the next report. The
  equation is between \<open>u64\<close> words, so it holds even if a drop counter wraps.
\<close>

theorem billing_ledger:
  "let r = flush_loop pe k env (with_caps c bc) in
     (of_nat (cnt sample_billable (produced (meanwhile r))) :: u64) =
       sum_list (map (\<lambda>(d, m). of_nat (cnt sample_billable (batch_samples d)) + batch_dropped_overflow d) (shipped r))
         + of_nat (cnt sample_billable (samples (buf (after r)))) + dropped_overflow (after r)
   \<and> (of_nat (cnt (\<lambda>s. \<not> sample_billable s) (produced (meanwhile r))) :: u64) =
       sum_list (map (\<lambda>(d, m). of_nat (cnt (\<lambda>s. \<not> sample_billable s) (batch_samples d)) + batch_dropped_non_billable d) (shipped r))
         + of_nat (cnt (\<lambda>s. \<not> sample_billable s) (samples (buf (after r)))) + dropped_non_billable (after r)"
proof -
  let ?b = "with_caps c bc"
  have bal: "balanced ?b (flush_loop pe k env ?b)" by (simp add: flush_loop_balanced)
  from bal show ?thesis
    unfolding balanced_def all_bool_eq comp_def metrics_lane.owed_def metrics_lane.worth_def
    by (simp add: Let_def drops_of_def batch_drops_of_def split_def add.assoc)
qed

text \<open>
  A reference for \<open>record\<close>, without indices and cached counts: the calls kept and, in the order they
  were given up, the calls dropped.
\<close>

definition record_spec :: "nat \<Rightarrow> tool_call_sample \<Rightarrow> tool_call_sample list \<times> tool_call_sample list
    \<Rightarrow> tool_call_sample list \<times> tool_call_sample list" where
  "record_spec c s = (\<lambda>(kept, lost).
     if length kept < c then (kept @ [s], lost)
     else if unbilled s then (kept, lost @ [s])
     else case dropWhile sample_billable kept of
            u # later \<Rightarrow> (takeWhile sample_billable kept @ later @ [s], lost @ [u])
          | [] \<Rightarrow> (tl kept @ [s], lost @ take 1 kept))"

lemma position_dropWhile:
  "position (\<lambda>x. \<not> P x) xs = (if dropWhile P xs = [] then None else Some (length (takeWhile P xs)))"
  by (induction xs) auto

lemma split_at_takeWhile:
  assumes "dropWhile P xs = u # later"
  shows "take (length (takeWhile P xs)) xs = takeWhile P xs" "drop (Suc (length (takeWhile P xs))) xs = later"
    "xs ! length (takeWhile P xs) = u"
proof -
  have "xs = takeWhile P xs @ u # later" using assms takeWhile_dropWhile_id[of P xs] by simp
  then show "take (length (takeWhile P xs)) xs = takeWhile P xs" "xs ! length (takeWhile P xs) = u"
    "drop (Suc (length (takeWhile P xs))) xs = later"
    by (metis append_eq_conv_conj, metis nth_append_length, metis drop_Suc tl_drop append_eq_conv_conj list.sel(3))
qed

definition simulates :: "metrics_buffer \<Rightarrow> tool_call_sample list \<times> tool_call_sample list \<Rightarrow> bool" where
  "simulates b = (\<lambda>(kept, lost).
     samples (buf b) = kept
     \<and> (\<forall>c. drops_of c b = of_nat (cnt (\<lambda>s. sample_billable s = c) lost)))"

lemma record_simulates:
  assumes inv: "metrics_inv b" and sim: "simulates b kl"
  shows "simulates (record_sample s b) (record_spec (cap b) s kl)"
proof -
  obtain kept lost where kl: "kl = (kept, lost)" by (cases kl)
  have kept: "samples (buf b) = kept"
    and lost: "\<And>c. drops_of c b = of_nat (cnt (\<lambda>s. sample_billable s = c) lost)"
    using sim by (simp_all add: simulates_def kl)
  consider "length kept < cap b"
    | "cap b \<le> length kept" "unbilled s"
    | "cap b \<le> length kept" "\<not> unbilled s" "kept \<noteq> []"
    | "cap b \<le> length kept" "\<not> unbilled s" "kept = []"
    by linarith
  then show ?thesis
  proof cases
    case 3
    note rep = record_sample_replaces[of b s, unfolded kept, OF 3]
    have nb: "non_billable (buf b) = cnt unbilled kept" using inv kept by (simp add: metrics_inv_def)
    show ?thesis
    proof (cases "dropWhile sample_billable kept")
      case Nil
      then have "position unbilled kept = None" using position_dropWhile[of sample_billable kept]
        by (simp add: sample_billable_def)
      then have "victim (buf b) = 0" using kept by (simp add: victim_def)
      then show ?thesis using 3 Nil
        by (cases kept) (auto simp: simulates_def record_spec_def kl rep lost sample_billable_def)
    next
      case (Cons u later)
      then have pos: "position unbilled kept = Some (length (takeWhile sample_billable kept))"
        using position_dropWhile[of sample_billable kept] by (simp add: sample_billable_def)
      then have "non_billable (buf b) > 0"
        using nb position_None[of unbilled kept] by simp
      then have "victim (buf b) = length (takeWhile sample_billable kept)"
        using kept pos by (simp add: victim_def)
      then show ?thesis using 3 Cons split_at_takeWhile[OF Cons]
        by (auto simp: simulates_def record_spec_def kl rep lost sample_billable_def)
    qed
  qed (auto simp: simulates_def record_spec_def kl kept lost record_sample_room record_sample_refused
        record_sample_cap_zero sample_billable_def)
qed

lemma records_simulate:
  assumes "metrics_inv b" and "simulates b kl"
  shows "simulates (fold record_sample ss b) (fold (record_spec (cap b)) ss kl)"
  using assms
proof (induction ss arbitrary: b kl)
  case (Cons s ss)
  from Cons.IH[OF metrics_inv_record[OF Cons.prems(1)] record_simulates[OF Cons.prems]]
  show ?case by simp
qed simp

text \<open>
  C32. \<open>record\<close>, with its cached count of non-billable samples and its search for a victim, computes
  the reference: after recording any calls into a fresh buffer of any size, the ring holds exactly the
  calls the reference keeps, in order, and each drop counter is the number of calls of its class that
  the reference gives up (modulo \<open>2 ^ 64\<close>).
\<close>

theorem record_computes_the_reference:
  "let b = fold record_sample ss (with_caps c bc); (kept, lost) = fold (record_spec c) ss ([], []) in
     samples (buf b) = kept
     \<and> dropped_overflow b = of_nat (cnt sample_billable lost)
     \<and> dropped_non_billable b = of_nat (cnt (\<lambda>s. \<not> sample_billable s) lost)"
proof -
  have "simulates (with_caps c bc) ([], [])" by (simp add: simulates_def drops_of_def)
  from records_simulate[OF metrics_inv_with_caps this, of ss]
  have sim: "simulates (fold record_sample ss (with_caps c bc)) (fold (record_spec c) ss ([], []))" by simp
  obtain kept lost where eq: "fold (record_spec c) ss ([], []) = (kept, lost)" by fastforce
  from sim have "drops_of True (fold record_sample ss (with_caps c bc)) = of_nat (cnt (\<lambda>s. sample_billable s = True) lost)"
    "drops_of False (fold record_sample ss (with_caps c bc)) = of_nat (cnt (\<lambda>s. sample_billable s = False) lost)"
    unfolding simulates_def eq by blast+
  then show ?thesis using sim by (simp add: simulates_def eq drops_of_def)
qed

text \<open>
  The buffer spends non-billable samples first. If recording a sample raises the billable drop
  counter then the arriving sample and every buffered one are billable; and the sample given up is
  then the oldest.
\<close>

theorem record_spends_unbilled_first:
  assumes "metrics_inv b" and "dropped_overflow (record_sample s b) \<noteq> dropped_overflow b"
  shows "sample_billable s \<and> list_all sample_billable (samples (buf b))
    \<and> samples (buf (record_sample s b)) = tl (samples (buf b)) @ [s]"
proof -
  have d: "drops_of True (record_sample s b) \<noteq> drops_of True b"
    using assms(2) by (simp add: drops_of_def)
  have full: "cap b \<le> length (samples (buf b))" "\<not> unbilled s" "samples (buf b) \<noteq> []"
    using d record_sample_room(2)[where b = b and s = s and c = True]
      record_sample_refused(2)[where b = b and s = s and c = True]
      record_sample_cap_zero(2)[where b = b and s = s and c = True] by force+
  have "is_billable (outcome (samples (buf b) ! victim (buf b)))"
    using d record_sample_replaces(3)[OF full, of True] by (auto split: if_splits)
  then have nb: "non_billable (buf b) = 0"
    using victim_unbilled[of "buf b"] assms(1) by (auto simp: metrics_inv_def)
  then have "victim (buf b) = 0" by (simp add: victim_def)
  moreover have "cnt unbilled (samples (buf b)) = 0"
    using nb assms(1) by (simp add: metrics_inv_def)
  ultimately show ?thesis
    using full record_sample_replaces(1)[OF full]
    by (simp add: sample_billable_def cnt_def list_all_iff filter_empty_conv drop_Suc)
qed

definition demo_sample :: "string \<Rightarrow> sample_outcome \<Rightarrow> tool_call_sample" where
  "demo_sample t oc =
     \<lparr>plugin_id = ''p'', tool_name = t, binding_id = None, started_at = DateTime 0 0,
      call_duration = from_millis 10, outcome = oc, error_code = None, error_hash = None,
      request_id = None, caller_subject = None, request_payload = None, response_payload = None,
      payload_encrypted = False, dek_version = 0\<rparr>"

definition demo_buffer :: metrics_buffer where
  "demo_buffer = record_sample (demo_sample ''b'' ServerError) (record_sample (demo_sample ''a'' Ok) (with_caps 2 2))"

lemma demo_buffer_inv: "metrics_inv demo_buffer"
  unfolding demo_buffer_def
  by (intro metrics_inv_record metrics_inv_with_caps)

lemmas record_eval = record_sample_def Let_def ring_remove_def ring_push_back_def victim_def
  count_drop_def is_billable_def demo_sample_def

lemma demo_buffer_eval:
  "samples (buf demo_buffer) = [demo_sample ''a'' Ok, demo_sample ''b'' ServerError]"
  "cap demo_buffer = 2" "batch_cap demo_buffer = 2" "dropped_overflow demo_buffer = 0"
  by (simp_all add: demo_buffer_def with_caps_def record_eval)

theorem record_spends_unbilled_first_witness:
  "dropped_overflow (record_sample (demo_sample ''c'' Ok) demo_buffer) = 1 \<and>
   map tool_name (samples (buf (record_sample (demo_sample ''c'' Ok) demo_buffer))) = [''b'', ''c'']"
proof -
  have d: "dropped_overflow (record_sample (demo_sample ''c'' Ok) demo_buffer) = 1"
    by (simp add: demo_buffer_def with_caps_def record_eval)
  then show ?thesis
    using record_spends_unbilled_first[OF demo_buffer_inv, of "demo_sample ''c'' Ok"]
    by (simp add: demo_buffer_eval) (simp add: demo_sample_def)
qed


subsection \<open>Delivery\<close>

text \<open>
  C22. One tick ships the whole buffer. On a buffer within its cap, with a positive batch size and a
  channel that takes every report, one run of the inner loop sends every buffered sample, in order,
  and leaves the ring empty.
\<close>

theorem one_tick_ships_the_whole_buffer:
  assumes "metrics_inv b" and "0 < cap b" and "0 < batch_cap b" and "quiet_env env"
  shows "shipped_samples (flush_batches pe (batches_per_tick b) env b) = samples (buf b)
    \<and> samples (buf (after (flush_batches pe (batches_per_tick b) env b))) = []
    \<and> ended (flush_batches pe (batches_per_tick b) env b) = Ticked"
proof -
  have "length (samples (buf b)) \<le> batches_per_tick b * batch_cap b"
  proof -
    have "max (batch_cap b) 1 = batch_cap b" "max (cap b) 1 = cap b"
      using assms(2,3) by simp_all
    then show ?thesis
      using assms(1) batches_per_tick_covers[of b] by (simp add: metrics_inv_def)
  qed
  with flush_batches_quiet[OF assms(4,3), of pe "batches_per_tick b"] show ?thesis by simp
qed

definition demo_env :: "nat \<Rightarrow> send_env" where
  "demo_env i = \<lparr>before_drain = [], clock = DateTime 7 0, during_send = [], send_ends = Sent\<rparr>"

definition demo_enums :: proto_enums where
  "demo_enums =
     \<lparr>outcome_i32 = (\<lambda>oc. case oc of TOk \<Rightarrow> 1 | TClientError \<Rightarrow> 2 | TServerError \<Rightarrow> 3
                    | TPolicyDenied \<Rightarrow> 4 | TQuotaExceeded \<Rightarrow> 5 | TIdempotentReplay \<Rightarrow> 6),
      level_i32 = (\<lambda>l. case l of PTrace \<Rightarrow> 1 | PDebug \<Rightarrow> 2 | PInfo \<Rightarrow> 3 | PWarn \<Rightarrow> 4 | PError \<Rightarrow> 5)\<rparr>"

theorem one_tick_ships_the_whole_buffer_witness:
  "map tool_name (shipped_samples (flush_batches demo_enums (batches_per_tick demo_buffer) demo_env demo_buffer))
     = [''a'', ''b'']"
  using one_tick_ships_the_whole_buffer[OF demo_buffer_inv, of demo_env demo_enums]
  by (simp add: demo_buffer_eval quiet_env_def demo_env_def) (simp add: demo_sample_def)

text \<open>
  C23. Handing a batch back undoes the drain. When nothing was recorded in between, requeueing the
  drained batch restores the ring in order, the non-billable count, both drop counters and the
  event rollup with its window start; only the sequence number has moved on.
\<close>

theorem requeue_undoes_drain:
  assumes "metrics_inv b" and "length (samples (buf b)) \<le> cap b" and "rollup_inv (events b)"
  shows "requeue_front (fst (drain now b)) (snd (drain now b)) = b\<lparr>seq := seq b + 1\<rparr>"
proof -
  let ?d = "fst (drain now b)" and ?b1 = "snd (drain now b)"
  let ?r = "requeue_front ?d ?b1"
  have samples: "samples (buf ?r) = samples (buf b)"
    using assms(2) by (simp add: requeue_samples_buf take_all min.coboundedI1 min.coboundedI2)
  have "metrics_inv ?r" using assms(1) by (simp add: metrics_inv_requeue metrics_inv_drain)
  then have "non_billable (buf ?r) = non_billable (buf b)"
    using assms(1) samples unfolding metrics_inv_def by simp
  with samples have buf: "buf ?r = buf b" by (simp del: requeue_front_sel)
  have events: "events ?r = events b"
  proof (cases "since (events b)")
    case None
    with assms(3) have "counts (events b) = []" by (simp add: rollup_inv_def)
    with None show ?thesis
      by (simp add: drain_def Let_def events_rollup_default_def events_rollup.equality)
  next
    case (Some t)
    with assms(3) have ne: "counts (events b) \<noteq> []" and
      sorted: "sorted_wrt (<) (map fst (counts (events b)))" by (auto simp: rollup_inv_def)
    then obtain e es where es: "counts (events b) = e # es" by (cases "counts (events b)") auto
    have first: "requeue_usage (usage_of t now e) events_rollup_default = \<lparr>since = Some t, counts = [e]\<rparr>"
      by (simp add: requeue_usage_def usage_of_def events_rollup_default_def)
    have "fold requeue_usage (map (usage_of t now) (e # es)) events_rollup_default
        = \<lparr>since = Some t, counts = e # es\<rparr>"
      using requeue_usages_rebuild[of "[e]" es t now] sorted by (simp add: es first)
    with Some es show ?thesis by (simp add: drain_def Let_def events_rollup.equality)
  qed
  have drops: "drops_of c ?r = drops_of c b" for c
  proof -
    have "owed c ?r = owed c b"
      using metrics_lane.owed_failed_attempt[OF assms(1), of c now "[]"]
      by (simp del: requeue_front_sel)
    with samples show ?thesis
      by (simp add: metrics_lane.owed_def del: requeue_front_sel)
  qed
  show ?thesis
    using buf events drops[of True] drops[of False]
    by (intro metrics_buffer.equality) (simp_all add: drops_of_def del: requeue_front_sel(1,7,8))
qed

theorem requeue_undoes_drain_witness:
  "requeue_front (fst (drain (DateTime 7 0) demo_buffer)) (snd (drain (DateTime 7 0) demo_buffer))
     = demo_buffer\<lparr>seq := seq demo_buffer + 1\<rparr>"
  by (rule requeue_undoes_drain[OF demo_buffer_inv])
    (simp_all add: demo_buffer_eval, simp add: demo_buffer_def)

subsection \<open>Well-formedness, order and wire format\<close>

text \<open>
  C24. The ring stays within its cap and its cached count stays exact. After any sequence of records,
  event counts, drains and requeues of arbitrary batches, a buffer built with capacity \<open>c\<close>
  holds at most \<open>max c 1\<close> samples, its non-billable counter is the number of non-billable samples
  it holds, and the event rollup has strictly ascending keys and a window start exactly when it is
  not empty.
\<close>

theorem buffer_well_formed:
  "let b = fold buffer_step ops (with_caps c bc) in
     length (samples (buf b)) \<le> max c 1
     \<and> non_billable (buf b) = cnt (\<lambda>s. \<not> sample_billable s) (samples (buf b))
     \<and> sorted_wrt (<) (map fst (counts (events b)))
     \<and> (counts (events b) = [] \<longleftrightarrow> since (events b) = None)"
proof -
  let ?b = "fold buffer_step ops (with_caps c bc)"
  have "metrics_inv ?b \<and> rollup_inv (events ?b) \<and> cap ?b = c"
    using buffer_steps_inv[of "with_caps c bc" ops] by simp
  then show ?thesis
    by (auto simp: Let_def metrics_inv_def rollup_inv_def sample_billable_def)
qed

text \<open>
  Recording keeps arrival order and loses at most one sample: the new ring is a subsequence of
  the old ring followed by the arriving sample, at most one shorter.
\<close>

theorem record_keeps_order:
  "subseq (samples (buf (record_sample s b))) (samples (buf b) @ [s])
   \<and> length (samples (buf b)) \<le> length (samples (buf (record_sample s b)))"
proof -
  let ?xs = "samples (buf b)"
  consider "length ?xs < cap b"
    | "cap b \<le> length ?xs" "unbilled s"
    | "cap b \<le> length ?xs" "\<not> unbilled s" "?xs \<noteq> []"
    | "cap b \<le> length ?xs" "\<not> unbilled s" "?xs = []"
    by linarith
  then show ?thesis
  proof cases
    case 3
    let ?i = "victim (buf b)"
    have i: "?i < length ?xs" using 3 by (simp add: victim_in_range)
    have "subseq (take ?i ?xs @ drop (Suc ?i) ?xs) (take ?i ?xs @ ?xs ! ?i # drop (Suc ?i) ?xs)"
      by (intro list_emb_append_mono subseq_order.order_refl list_emb_Cons)
    then have "subseq (take ?i ?xs @ drop (Suc ?i) ?xs) ?xs" using id_take_nth_drop[OF i] by simp
    from list_emb_append_mono[OF this subseq_order.order_refl[of "[s]"]] i
    show ?thesis by (simp add: record_sample_replaces[OF 3])
  qed (simp_all add: record_sample_room record_sample_refused record_sample_cap_zero prefix_imp_subseq)
qed

text \<open>
  C25. Every report the flush loop sends is the faithful image of one batch: at most \<open>batch_cap\<close>
  invocations, one per sample in order, the batch's own counters and sequence number, and a key
  version only on an invocation whose payload was encrypted. A batch that became a report is never
  empty.
\<close>

theorem reports_are_faithful:
  "list_all (\<lambda>(d, m). case m of
       MetricsReport r \<Rightarrow>
         length (mr_invocations r) \<le> batch_cap b
         \<and> mr_invocations r = map (sample_to_proto pe) (batch_samples d)
         \<and> list_all (\<lambda>i. tis_payload_encrypted i \<or> tis_dek_version i = 0) (mr_invocations r)
         \<and> mr_seq r = batch_seq d
         \<and> mr_dropped_overflow r = batch_dropped_overflow d
         \<and> mr_dropped_non_billable r = batch_dropped_non_billable d
         \<and> mr_events r = map usage_to_proto (batch_events d)
         \<and> \<not> is_empty d
     | _ \<Rightarrow> False)
     (shipped (flush_loop pe k env b))"
  using conjunct1[OF flush_loop_reported[of pe b k env]]
  by (auto simp: reported_def batch_to_message_def list_all_iff sample_to_proto_def split: if_splits)

text \<open>
  Report sequence numbers only grow: the numbers of the shipped reports are the buffer's counter
  plus strictly increasing positive offsets, the last at most the number of drains performed.
\<close>

theorem sequence_numbers_grow:
  "\<exists>ks n. sorted_wrt (<) ks \<and> list_all (\<lambda>k. 0 < k \<and> k \<le> n) ks
     \<and> map (batch_seq \<circ> fst) (shipped (flush_loop pe t env b)) = map (\<lambda>k. seq b + of_nat k) ks
     \<and> seq (after (flush_loop pe t env b)) = seq b + of_nat n"
  using conjunct2[OF flush_loop_reported[of pe b t env]]
  by (simp add: numbered_def list_all_iff)

text \<open>
  Event usage accumulates per (type, mode): counting usage adds to the entry of its key,
  saturating each field, leaves every other key alone, keeps the first window start, and does
  nothing for an all-zero count.
\<close>

theorem record_events_accumulates:
  assumes "rollup_inv (events b)" and "c \<noteq> event_counts_default"
  shows "map_of (counts (events (record_events now n m c b))) =
           (map_of (counts (events b)))((n, m) \<mapsto>
              event_counts_add (case map_of (counts (events b)) (n, m) of
                 None \<Rightarrow> event_counts_default | Some v \<Rightarrow> v) c)
    \<and> since (events (record_events now n m c b)) = Some (case since (events b) of None \<Rightarrow> now | Some t \<Rightarrow> t)
    \<and> record_events now n m event_counts_default b = b"
  using assms by (simp add: record_events_def rollup_inv_def entry_add_lookup split: option.splits)

theorem record_events_accumulates_witness:
  "map_of (counts (events (record_events (DateTime 5 0) ''orders'' ''webhook''
      \<lparr>delivered = 2, abandoned = 0, ingested = 0, ec_bytes = 200\<rparr> (with_caps 10 10)))) (''orders'', ''webhook'')
   = Some \<lparr>delivered = 2, abandoned = 0, ingested = 0, ec_bytes = 200\<rparr>"
  using record_events_accumulates[of "with_caps 10 10" "\<lparr>delivered = 2, abandoned = 0, ingested = 0, ec_bytes = 200\<rparr>" "DateTime 5 0" "''orders''" "''webhook''"]
  by (simp add: events_rollup_default_def rollup_inv_def) (simp add: event_counts_default_def)

text \<open>
  A filling buffer asks for an early flush, and early flushes are spaced. A record leaves the
  wake-up permit set whenever the buffer, with the arriving sample, reaches its threshold, which a new
  buffer puts at four fifths of its cap, rounded up;
  and the next flush starts at its tick or at least \<open>EARLY_FLUSH_SPACING\<close> after the previous start.
\<close>

theorem early_flush_requested_and_spaced:
  "flush_early_at (with_caps c bc) = max 1 ((4 * c + 4) div 5)
   \<and> (flush_early (record_sample s b) \<longleftrightarrow> flush_early b \<or> flush_early_at b \<le> length (samples (buf b)) + 1)
   \<and> (next_flush_at started tick_at notified = tick_at
      \<or> started + EARLY_FLUSH_SPACING \<le> next_flush_at started tick_at notified)"
proof -
  have "flush_early (record_sample s b) \<longleftrightarrow> flush_early b \<or> flush_early_at b \<le> length (samples (buf b)) + 1" for b
    by (auto simp: record_sample_def Let_def ring_remove_def split: prod.splits option.splits)
  then show ?thesis
    by (auto simp: next_flush_at_def max_def split: option.splits)
qed

end
