(* ===== verification/Logs.thy ===== *)
theory Logs
  imports Lanes Wire
begin

text \<open>
  \<open>src/logs.rs\<close>: the gateway log lane. A bounded ring of lines with drop-oldest overflow, a
  drain that carries the drop counter away, the wire batch, and the flush loop, which drains one
  batch per tick. Unlike the metrics lane there is no in-flight guard: a batch whose send fails or
  is aborted is gone, and the ledger of this lane has a term for it.
\<close>

section \<open>Data\<close>

definition DEFAULT_LOG_BUFFER_CAP :: nat where "DEFAULT_LOG_BUFFER_CAP = 5000"
definition DEFAULT_LOG_BATCH_CAP :: nat where "DEFAULT_LOG_BATCH_CAP = 500"
definition DEFAULT_LOG_FLUSH_INTERVAL :: duration where "DEFAULT_LOG_FLUSH_INTERVAL = from_secs 45"

datatype log_level = Trace | Debug | Info | Warn | Error

fun level_to_proto :: "log_level \<Rightarrow> proto_level" where
  "level_to_proto Trace = PTrace"
| "level_to_proto Debug = PDebug"
| "level_to_proto Info = PInfo"
| "level_to_proto Warn = PWarn"
| "level_to_proto Error = PError"

record log_line_sample =
  line_at :: datetime
  level :: log_level
  target :: string
  message :: string
  line_plugin_id :: "string option"

record log_buffer =
  log_buf :: "log_line_sample list"
  log_cap :: nat
  log_batch_cap :: nat
  log_dropped_overflow :: u64
  log_seq :: u64

section \<open>Operations\<close>

definition log_with_caps :: "nat \<Rightarrow> nat \<Rightarrow> log_buffer" where
  "log_with_caps c bc =
     \<lparr>log_buf = [], log_cap = c, log_batch_cap = bc, log_dropped_overflow = 0, log_seq = 0\<rparr>"

definition log_new :: log_buffer where
  "log_new = log_with_caps DEFAULT_LOG_BUFFER_CAP DEFAULT_LOG_BATCH_CAP"

text \<open>\<open>pop_front\<close> on an empty ring does nothing; the counter is bumped all the same.\<close>

definition record_line :: "log_line_sample \<Rightarrow> log_buffer \<Rightarrow> log_buffer" where
  "record_line l b =
     (let b' = (if length (log_buf b) \<ge> log_cap b
                then b\<lparr>log_buf := tl (log_buf b), log_dropped_overflow := log_dropped_overflow b + 1\<rparr>
                else b)
      in b'\<lparr>log_buf := log_buf b' @ [l]\<rparr>)"

type_synonym log_drained = "log_line_sample list \<times> u64 \<times> u64"

definition log_drain :: "log_buffer \<Rightarrow> log_drained \<times> log_buffer" where
  "log_drain b =
     (let n = min (length (log_buf b)) (log_batch_cap b)
      in ((take n (log_buf b), log_dropped_overflow b, log_seq b + 1),
          b\<lparr>log_buf := drop n (log_buf b), log_dropped_overflow := 0, log_seq := log_seq b + 1\<rparr>))"

definition line_to_proto :: "proto_enums \<Rightarrow> log_line_sample \<Rightarrow> log_line" where
  "line_to_proto pe l =
     \<lparr>ll_at = Some (pb_of (line_at l)),
      ll_level = level_i32 pe (level_to_proto (level l)),
      ll_target = target l,
      ll_message = message l,
      ll_plugin_id = unwrap_or_default (line_plugin_id l)\<rparr>"

definition log_batch_to_message :: "proto_enums \<Rightarrow> datetime \<Rightarrow> log_drained \<Rightarrow> agent_message option" where
  "log_batch_to_message pe now d =
     (case d of (ls, dropped, sq) \<Rightarrow>
        if ls = [] \<and> dropped = 0 then None
        else Some (LogBatch \<lparr>lb_at = Some (pb_now now), lb_seq = sq,
                             lb_lines = map (line_to_proto pe) ls, lb_dropped_overflow = dropped\<rparr>))"

section \<open>The flush loop\<close>

datatype log_send = LogSent | LogClosed | LogAborted

record log_tick_env =
  lines_before :: "log_line_sample list"
  tick_clock :: datetime
  lines_during :: "log_line_sample list"
  tick_send :: log_send

text \<open>
  What a run shows: the batches sent with their messages, the batch that was in flight when the run
  ended and never arrived, the buffer afterwards, and the lines recorded meanwhile.
\<close>

record log_flush_result =
  log_shipped :: "(log_drained \<times> agent_message) list"
  log_lost :: "log_drained option"
  log_after :: log_buffer
  log_meanwhile :: "log_line_sample list"

text \<open>\<open>flush_loop\<close>, observed for at most \<open>k\<close> ticks.\<close>

fun log_flush_loop :: "proto_enums \<Rightarrow> nat \<Rightarrow> (nat \<Rightarrow> log_tick_env) \<Rightarrow> log_buffer \<Rightarrow> log_flush_result" where
  "log_flush_loop pe 0 env b = \<lparr>log_shipped = [], log_lost = None, log_after = b, log_meanwhile = []\<rparr>"
| "log_flush_loop pe (Suc k) env b =
     (let e = env 0;
          (d, b1) = log_drain (fold record_line (lines_before e) b);
          continue = (\<lambda>sent ops b'. let r = log_flush_loop pe k (\<lambda>i. env (Suc i)) b'
                      in r\<lparr>log_shipped := sent @ log_shipped r, log_meanwhile := ops @ log_meanwhile r\<rparr>)
      in case log_batch_to_message pe (tick_clock e) d of
           None \<Rightarrow> continue [] (lines_before e) b1
         | Some msg \<Rightarrow>
             (let b2 = fold record_line (lines_during e) b1; ops = lines_before e @ lines_during e
              in case tick_send e of
                   LogSent \<Rightarrow> continue [(d, msg)] ops b2
                 | _ \<Rightarrow> \<lparr>log_shipped = [], log_lost = Some d, log_after = b2, log_meanwhile = ops\<rparr>))"

section \<open>Invariant and lane contract\<close>

definition log_inv :: "log_buffer \<Rightarrow> bool" where
  "log_inv b \<longleftrightarrow> 0 < log_cap b \<and> length (log_buf b) \<le> log_cap b"

lemma record_line_sel [simp]:
  "log_cap (record_line l b) = log_cap b"
  "log_batch_cap (record_line l b) = log_batch_cap b"
  "log_seq (record_line l b) = log_seq b"
  by (simp_all add: record_line_def Let_def)

lemma record_line_room:
  assumes "length (log_buf b) < log_cap b"
  shows "log_buf (record_line l b) = log_buf b @ [l]"
    and "log_dropped_overflow (record_line l b) = log_dropped_overflow b"
  using assms by (simp_all add: record_line_def)

lemma record_line_full:
  assumes "log_cap b \<le> length (log_buf b)"
  shows "log_buf (record_line l b) = tl (log_buf b) @ [l]"
    and "log_dropped_overflow (record_line l b) = log_dropped_overflow b + 1"
  using assms by (simp_all add: record_line_def)

lemma log_inv_record: "log_inv b \<Longrightarrow> log_inv (record_line l b)"
  by (cases "length (log_buf b) < log_cap b")
    (auto simp: log_inv_def record_line_room record_line_full)

lemma log_drain_sel [simp]:
  "fst (fst (log_drain b)) = take (log_batch_cap b) (log_buf b)"
  "fst (snd (fst (log_drain b))) = log_dropped_overflow b"
  "snd (snd (fst (log_drain b))) = log_seq b + 1"
  "log_buf (snd (log_drain b)) = drop (log_batch_cap b) (log_buf b)"
  "log_dropped_overflow (snd (log_drain b)) = 0"
  "log_cap (snd (log_drain b)) = log_cap b"
  "log_batch_cap (snd (log_drain b)) = log_batch_cap b"
  "log_seq (snd (log_drain b)) = log_seq b + 1"
  by (simp_all add: log_drain_def Let_def min_def)

lemma log_with_caps_sel [simp]:
  "log_buf (log_with_caps c bc) = []" "log_cap (log_with_caps c bc) = c"
  "log_batch_cap (log_with_caps c bc) = bc" "log_dropped_overflow (log_with_caps c bc) = 0"
  by (simp_all add: log_with_caps_def)

lemma record_lines_cap [simp]: "log_cap (fold record_line ls b) = log_cap b"
  by (induction ls arbitrary: b) auto

lemma log_flush_caps: "log_cap (log_after (log_flush_loop pe k env b)) = log_cap b"
proof (induction k arbitrary: env b)
  case (Suc k)
  let ?b0 = "fold record_line (lines_before (env 0)) b"
  obtain d b1 where dr: "log_drain ?b0 = (d, b1)" by (cases "log_drain ?b0")
  then have "log_cap b1 = log_cap b" using log_drain_sel(6)[of ?b0] by simp
  with dr Suc.IH show ?case by (simp add: Let_def split: option.split log_send.split)
qed simp

interpretation log_lane: counted_lane log_inv log_buf log_dropped_overflow "\<lambda>_. True"
    record_line "\<lambda>_ :: unit. log_drain" fst "\<lambda>d. fst (snd d)"
proof (unfold_locales, goal_cases)
  case (1 b x)
  then show ?case by (rule log_inv_record)
next
  case (2 b t)
  then show ?case by (auto simp: log_inv_def)
next
  case (3 b x)
  show ?case
  proof (cases "length (log_buf b) < log_cap b")
    case True
    then show ?thesis by (simp add: record_line_room)
  next
    case False
    with 3 obtain y ys where "log_buf b = y # ys"
      by (cases "log_buf b") (auto simp: log_inv_def)
    with False show ?thesis by (simp add: record_line_full)
  qed
qed simp_all

lemma log_flush_ledger:
  assumes "log_inv b"
  defines "lost r \<equiv> (case log_lost r of None \<Rightarrow> 0 | Some d \<Rightarrow> log_lane.worth d)"
  shows "log_inv (log_after (log_flush_loop pe k env b)) \<and>
    log_lane.owed b + of_nat (length (log_meanwhile (log_flush_loop pe k env b))) =
      sum_list (map (log_lane.worth \<circ> fst) (log_shipped (log_flush_loop pe k env b)))
      + lost (log_flush_loop pe k env b) + log_lane.owed (log_after (log_flush_loop pe k env b))"
  using assms(1)
proof (induction k arbitrary: env b)
  case 0
  then show ?case by (simp add: lost_def)
next
  case (Suc k)
  let ?e = "env 0"
  let ?b0 = "fold record_line (lines_before ?e) b"
  obtain d b1 where dr: "log_drain ?b0 = (d, b1)" by (cases "log_drain ?b0")
  let ?b2 = "fold record_line (lines_during ?e) b1"
  have i0: "log_inv ?b0" using Suc.prems by (rule log_lane.inv_puts)
  have i1: "log_inv b1" using log_lane.inv_take[OF i0] dr by simp
  have i2: "log_inv ?b2" using i1 by (rule log_lane.inv_puts)
  have o1: "log_lane.owed b + of_nat (length (lines_before ?e)) = log_lane.worth d + log_lane.owed b1"
    using log_lane.owed_puts[OF Suc.prems, of "lines_before ?e"] log_lane.owed_take[OF i0] dr by simp
  have o2: "log_lane.owed ?b2 = log_lane.owed b1 + of_nat (length (lines_during ?e))"
    using log_lane.owed_puts[OF i1, of "lines_during ?e"] by simp
  have o12: "log_lane.owed b + of_nat (length (lines_before ?e) + length (lines_during ?e)) =
      log_lane.worth d + log_lane.owed ?b2"
    using o1 o2 by (simp add: algebra_simps)
  have none: "log_lane.worth d = 0" if "log_batch_to_message pe (tick_clock ?e) d = None"
    using that by (auto simp: log_batch_to_message_def log_lane.worth_def split: prod.splits if_splits)
  note IH1 = Suc.IH[OF i1, of "\<lambda>i. env (Suc i)"] and IH2 = Suc.IH[OF i2, of "\<lambda>i. env (Suc i)"]
  show ?case
  proof (cases "log_batch_to_message pe (tick_clock ?e) d")
    case None
    then show ?thesis
      using IH1 ledger_trans[OF o1 conjunct2[OF IH1]] none by (simp add: dr Let_def lost_def)
  next
    case (Some msg)
    then show ?thesis
      using i2 o12 IH2 ledger_trans[OF o12 conjunct2[OF IH2]]
      by (cases "tick_send ?e") (simp_all add: dr Let_def lost_def add.assoc)
  qed
qed

section \<open>Properties\<close>

text \<open>
  The log lane accounts for every line. For any run of the flush loop on a fresh buffer with
  positive capacity, under any interleaving of writers, the lines recorded are those in the batches
  sent, plus the drops those batches report, plus those still buffered and the drops still to be
  reported, plus the content of at most one batch, the one whose send failed or was aborted. As for
  the metrics lane the equation is between \<open>u64\<close> words.
\<close>

theorem log_ledger:
  assumes "0 < c"
  shows "let r = log_flush_loop pe k env (log_with_caps c bc) in
     (of_nat (length (log_meanwhile r)) :: u64) =
       sum_list (map (\<lambda>((ls, dropped, sq), m). of_nat (length ls) + dropped) (log_shipped r))
       + (case log_lost r of None \<Rightarrow> 0 | Some (ls, dropped, sq) \<Rightarrow> of_nat (length ls) + dropped)
       + of_nat (length (log_buf (log_after r))) + log_dropped_overflow (log_after r)
     \<and> length (log_buf (log_after r)) \<le> c"
proof -
  let ?b = "log_with_caps c bc"
  let ?r = "log_flush_loop pe k env ?b"
  have inv: "log_inv ?b" using assms by (simp add: log_inv_def)
  have "log_cap (log_after ?r) = c" by (simp add: log_flush_caps)
  with log_flush_ledger[OF inv, of pe k env] show ?thesis
    by (auto simp: Let_def log_lane.owed_def log_lane.worth_def log_inv_def split_def comp_def
        add.assoc split: option.splits)
qed

definition demo_line :: "string \<Rightarrow> log_line_sample" where
  "demo_line msg = \<lparr>line_at = DateTime 0 0, level = Info, target = ''mcpg::test'', message = msg, line_plugin_id = None\<rparr>"

definition demo_log_env :: "log_send \<Rightarrow> nat \<Rightarrow> log_tick_env" where
  "demo_log_env res i = \<lparr>lines_before = (if i = 0 then [demo_line ''m0'', demo_line ''m1''] else []),
     tick_clock = DateTime 1 0, lines_during = [], tick_send = res\<rparr>"

definition demo_log_enums :: proto_enums where
  "demo_log_enums = \<lparr>outcome_i32 = (\<lambda>_. 0), level_i32 = (\<lambda>_. 3)\<rparr>"

theorem log_ledger_witness:
  "length (log_buf (log_after (log_flush_loop demo_log_enums 1 (demo_log_env LogSent) (log_with_caps 1 5)))) \<le> 1
   \<and> length (log_meanwhile (log_flush_loop demo_log_enums 1 (demo_log_env LogSent) (log_with_caps 1 5))) = 2"
  using log_ledger[of 1 demo_log_enums 1 "demo_log_env LogSent" 5]
  by (simp add: Let_def log_with_caps_def demo_log_env_def record_line_def log_drain_def
      log_batch_to_message_def)

text \<open>
  A log batch in flight is lost when the Channel goes away. When a tick has drained a batch
  worth sending and its send fails or is aborted, the run ends with that batch in no report and not
  in the buffer, whose ring then holds only what the drain left and what was recorded during the
  send: nothing is returned and nothing is counted as dropped.
\<close>

theorem aborted_log_batch_is_lost:
  assumes "log_batch_to_message pe (tick_clock (env 0)) (fst (log_drain b)) = Some msg"
    and "tick_send (env 0) = LogClosed \<or> tick_send (env 0) = LogAborted"
    and "lines_before (env 0) = []" and "lines_during (env 0) = []"
  shows "log_shipped (log_flush_loop pe (Suc k) env b) = []
    \<and> log_lost (log_flush_loop pe (Suc k) env b) = Some (fst (log_drain b))
    \<and> log_buf (log_after (log_flush_loop pe (Suc k) env b)) = drop (log_batch_cap b) (log_buf b)
    \<and> log_dropped_overflow (log_after (log_flush_loop pe (Suc k) env b)) = 0"
  using assms by (auto simp: Let_def split_def)

theorem aborted_log_batch_is_lost_witness:
  "log_buf (log_after (log_flush_loop demo_log_enums 1
      (\<lambda>_. \<lparr>lines_before = [], tick_clock = DateTime 1 0, lines_during = [], tick_send = LogAborted\<rparr>)
      (record_line (demo_line ''m0'') (log_with_caps 3 10)))) = []"
  using aborted_log_batch_is_lost[of demo_log_enums
      "\<lambda>_. \<lparr>lines_before = [], tick_clock = DateTime 1 0, lines_during = [], tick_send = LogAborted\<rparr>"
      "record_line (demo_line ''m0'') (log_with_caps 3 10)" _ 0]
  by (simp add: log_batch_to_message_def log_drain_def record_line_def log_with_caps_def)

text \<open>
  Overflow drops the oldest lines. Recording a list of lines into a fresh buffer of positive
  capacity \<open>c\<close> leaves the last \<open>c\<close> of them, in order, and the counter is the number of
  lines that did not fit.
\<close>

theorem log_overflow_drops_oldest:
  assumes "0 < c"
  shows "log_buf (fold record_line ls (log_with_caps c bc)) = drop (length ls - c) ls
    \<and> log_dropped_overflow (fold record_line ls (log_with_caps c bc)) = of_nat (length ls - c)"
proof (induction ls rule: rev_induct)
  case Nil
  show ?case by (simp add: log_with_caps_def)
next
  case (snoc l ls)
  let ?b = "fold record_line ls (log_with_caps c bc)"
  have c: "log_cap ?b = c" by simp
  show ?case
  proof (cases "length ls < c")
    case True
    with snoc c show ?thesis by (simp add: record_line_room)
  next
    case False
    with snoc c assms have "log_buf ?b \<noteq> []" and full: "log_cap ?b \<le> length (log_buf ?b)" by auto
    have "tl (drop (length ls - c) ls) = drop (Suc (length ls) - c) ls"
      using False by (simp add: tl_drop drop_Suc Suc_diff_le)
    with False snoc full assms show ?thesis by (simp add: record_line_full Suc_diff_le)
  qed
qed

theorem log_overflow_drops_oldest_witness:
  "map message (log_buf (fold record_line (map demo_line [''m0'', ''m1'', ''m2'', ''m3'', ''m4'']) (log_with_caps 3 10)))
     = [''m2'', ''m3'', ''m4'']"
  using log_overflow_drops_oldest[of 3 "map demo_line [''m0'', ''m1'', ''m2'', ''m3'', ''m4'']" 10]
  by (simp add: demo_line_def)

end
