(* ===== verification/FinalFlush.thy ===== *)
theory FinalFlush
  imports Metrics Logs
begin

text \<open>
  The end of a session (\<open>run_session\<close> from the aborts on, and \<open>flush_remaining\<close>, in \<open>agent.rs\<close>).
  \<open>JoinHandle::abort\<close> only asks for the cancellation: the flush task goes on until its next suspension
  at the latest, and its locals, an in-flight batch among them, are dropped when the runtime gets to
  it. So the final flush runs beside producers and beside a task that may still drain, send, find the
  channel closed, or be dropped at any point. A tail is the state of a lane from the abort on; it is
  followed until the task is gone.
\<close>

section \<open>The metrics lane after the abort\<close>

text \<open>
  The task is gone (\<open>None\<close>), alive with nothing in flight (\<open>Some None\<close>), or waiting for a send with
  its batch in the guard. Kept beside it: the batches it has sent since the abort and what producers
  have done.
\<close>

record metrics_tail =
  mt_buf :: metrics_buffer
  mt_task :: "(drained \<times> agent_message) option option"
  mt_task_shipped :: "(drained \<times> agent_message) list"
  mt_calls :: "producer_op list"

datatype tail_op =
    Producing producer_op
  | TaskWakesEarly
  | TaskDrains datetime
  | TaskSends
  | TaskCloses
  | AbortLands

fun tail_step :: "proto_enums \<Rightarrow> tail_op \<Rightarrow> metrics_tail \<Rightarrow> metrics_tail" where
  "tail_step pe (Producing p) st = st\<lparr>mt_buf := produce p (mt_buf st), mt_calls := mt_calls st @ [p]\<rparr>"
| "tail_step pe TaskWakesEarly st =
     (if mt_task st = Some None then st\<lparr>mt_buf := (mt_buf st)\<lparr>flush_early := False\<rparr>\<rparr> else st)"
| "tail_step pe (TaskDrains now) st =
     (if mt_task st = Some None
      then case drain now (mt_buf st) of (d, b) \<Rightarrow>
             (case batch_to_message pe now d of
                None \<Rightarrow> st\<lparr>mt_buf := in_flight_drop (disarm (Some d)) b\<rparr>
              | Some msg \<Rightarrow> st\<lparr>mt_buf := b, mt_task := Some (Some (d, msg))\<rparr>)
      else st)"
| "tail_step pe TaskSends st =
     (case mt_task st of
        Some (Some (d, msg)) \<Rightarrow>
          st\<lparr>mt_buf := in_flight_drop (disarm (Some d)) (mt_buf st), mt_task := Some None,
             mt_task_shipped := mt_task_shipped st @ [(d, msg)]\<rparr>
      | _ \<Rightarrow> st)"
| "tail_step pe TaskCloses st =
     (case mt_task st of
        Some (Some (d, msg)) \<Rightarrow> st\<lparr>mt_buf := in_flight_drop (Some d) (mt_buf st), mt_task := None\<rparr>
      | _ \<Rightarrow> st)"
| "tail_step pe AbortLands st =
     (case mt_task st of
        Some batch \<Rightarrow> st\<lparr>mt_buf := in_flight_drop (map_option fst batch) (mt_buf st), mt_task := None\<rparr>
      | None \<Rightarrow> st)"

text \<open>Where the flush loop is when it is aborted, unless it has already returned or been dropped.\<close>

definition tail_of :: "flush_result \<Rightarrow> metrics_tail" where
  "tail_of r = \<lparr>mt_buf = after r, mt_task = (if ended r = Ticked then Some None else None),
                mt_task_shipped = [], mt_calls = []\<rparr>"

definition settle :: "proto_enums \<Rightarrow> tail_op list \<Rightarrow> metrics_tail \<Rightarrow> metrics_tail" where
  "settle pe ops st = tail_step pe AbortLands (fold (tail_step pe) ops st)"

section \<open>The log lane after the abort\<close>

text \<open>The log loop has no guard: a batch in flight when the task goes away is lost.\<close>

record log_tail =
  lt_buf :: log_buffer
  lt_task :: "(log_drained \<times> agent_message) option option"
  lt_task_shipped :: "(log_drained \<times> agent_message) list"
  lt_lost :: "log_drained list"
  lt_lines :: "log_line_sample list"

datatype log_tail_op =
    Recording log_line_sample
  | LogTaskDrains datetime
  | LogTaskSends
  | LogTaskCloses
  | LogAbortLands

definition drop_log_task :: "log_tail \<Rightarrow> log_tail" where
  "drop_log_task st =
     (case lt_task st of
        Some (Some (d, msg)) \<Rightarrow> st\<lparr>lt_task := None, lt_lost := lt_lost st @ [d]\<rparr>
      | _ \<Rightarrow> st\<lparr>lt_task := None\<rparr>)"

fun log_tail_step :: "proto_enums \<Rightarrow> log_tail_op \<Rightarrow> log_tail \<Rightarrow> log_tail" where
  "log_tail_step pe (Recording l) st = st\<lparr>lt_buf := record_line l (lt_buf st), lt_lines := lt_lines st @ [l]\<rparr>"
| "log_tail_step pe (LogTaskDrains now) st =
     (if lt_task st = Some None
      then case log_drain (lt_buf st) of (d, b) \<Rightarrow>
             (case log_batch_to_message pe now d of
                None \<Rightarrow> st\<lparr>lt_buf := b\<rparr>
              | Some msg \<Rightarrow> st\<lparr>lt_buf := b, lt_task := Some (Some (d, msg))\<rparr>)
      else st)"
| "log_tail_step pe LogTaskSends st =
     (case lt_task st of
        Some (Some x) \<Rightarrow> st\<lparr>lt_task := Some None, lt_task_shipped := lt_task_shipped st @ [x]\<rparr>
      | _ \<Rightarrow> st)"
| "log_tail_step pe LogTaskCloses st =
     (case lt_task st of Some (Some x) \<Rightarrow> drop_log_task st | _ \<Rightarrow> st)"
| "log_tail_step pe LogAbortLands st = drop_log_task st"

definition log_tail_of :: "log_flush_result \<Rightarrow> log_tail" where
  "log_tail_of r = \<lparr>lt_buf = log_after r, lt_task = (if log_lost r = None then Some None else None),
                    lt_task_shipped = [], lt_lost = [], lt_lines = []\<rparr>"

definition log_settle :: "proto_enums \<Rightarrow> log_tail_op list \<Rightarrow> log_tail \<Rightarrow> log_tail" where
  "log_settle pe ops st = log_tail_step pe LogAbortLands (fold (log_tail_step pe) ops st)"

section \<open>The final flush\<close>

definition MAX_SHUTDOWN_FLUSH_BATCHES :: nat where "MAX_SHUTDOWN_FLUSH_BATCHES = 16"

text \<open>
  \<open>flush_remaining\<close>. For the \<open>i\<close>-th batch of a lane: what happens to the lane before the batch is
  drained and while it is sent, the clock, and whether the outbound channel takes it. What happens
  after the last batch is left to \<open>settle\<close>.
\<close>

record shutdown_send =
  sh_before :: "tail_op list"
  sh_now :: datetime
  sh_during :: "tail_op list"
  sh_open :: bool

record shutdown_metrics =
  sm_shipped :: "(drained \<times> agent_message) list"
  sm_lost :: "drained option"
  sm_after :: metrics_tail

fun flush_remaining_metrics ::
  "proto_enums \<Rightarrow> nat \<Rightarrow> (nat \<Rightarrow> shutdown_send) \<Rightarrow> metrics_tail \<Rightarrow> shutdown_metrics" where
  "flush_remaining_metrics pe 0 env st = \<lparr>sm_shipped = [], sm_lost = None, sm_after = st\<rparr>"
| "flush_remaining_metrics pe (Suc n) env st =
     (let e = env 0;
          st0 = fold (tail_step pe) (sh_before e) st;
          (batch, b1) = drain (sh_now e) (mt_buf st0);
          st1 = st0\<lparr>mt_buf := b1\<rparr>
      in case batch_to_message pe (sh_now e) batch of
           Some msg \<Rightarrow>
             (let st2 = fold (tail_step pe) (sh_during e) st1
              in if \<not> sh_open e then \<lparr>sm_shipped = [], sm_lost = Some batch, sm_after = st2\<rparr>
                 else if is_empty batch then \<lparr>sm_shipped = [(batch, msg)], sm_lost = None, sm_after = st2\<rparr>
                 else let r = flush_remaining_metrics pe n (\<lambda>i. env (Suc i)) st2
                      in r\<lparr>sm_shipped := (batch, msg) # sm_shipped r\<rparr>)
         | None \<Rightarrow>
             (if is_empty batch then \<lparr>sm_shipped = [], sm_lost = None, sm_after = st1\<rparr>
              else flush_remaining_metrics pe n (\<lambda>i. env (Suc i)) st1))"

record shutdown_log_send =
  shl_before :: "log_tail_op list"
  shl_now :: datetime
  shl_during :: "log_tail_op list"
  shl_open :: bool

record shutdown_logs =
  sl_shipped :: "(log_drained \<times> agent_message) list"
  sl_lost :: "log_drained option"
  sl_after :: log_tail

fun flush_remaining_logs ::
  "proto_enums \<Rightarrow> nat \<Rightarrow> (nat \<Rightarrow> shutdown_log_send) \<Rightarrow> log_tail \<Rightarrow> shutdown_logs" where
  "flush_remaining_logs pe 0 env st = \<lparr>sl_shipped = [], sl_lost = None, sl_after = st\<rparr>"
| "flush_remaining_logs pe (Suc n) env st =
     (let e = env 0;
          st0 = fold (log_tail_step pe) (shl_before e) st;
          (d, b1) = log_drain (lt_buf st0);
          st1 = st0\<lparr>lt_buf := b1\<rparr>;
          empty = (fst d = [] \<and> fst (snd d) = 0)
      in case log_batch_to_message pe (shl_now e) d of
           Some msg \<Rightarrow>
             (let st2 = fold (log_tail_step pe) (shl_during e) st1
              in if \<not> shl_open e then \<lparr>sl_shipped = [], sl_lost = Some d, sl_after = st2\<rparr>
                 else if empty then \<lparr>sl_shipped = [(d, msg)], sl_lost = None, sl_after = st2\<rparr>
                 else let r = flush_remaining_logs pe n (\<lambda>i. env (Suc i)) st2
                      in r\<lparr>sl_shipped := (d, msg) # sl_shipped r\<rparr>)
         | None \<Rightarrow>
             (if empty then \<lparr>sl_shipped = [], sl_lost = None, sl_after = st1\<rparr>
              else flush_remaining_logs pe n (\<lambda>i. env (Suc i)) st1))"

text \<open>The logs are not flushed when the metrics found the channel closed.\<close>

definition flush_remaining ::
  "proto_enums \<Rightarrow> (nat \<Rightarrow> shutdown_send) \<Rightarrow> (nat \<Rightarrow> shutdown_log_send) \<Rightarrow> metrics_tail \<Rightarrow> log_tail
     \<Rightarrow> shutdown_metrics \<times> shutdown_logs" where
  "flush_remaining pe menv lenv mt lt =
     (let m = flush_remaining_metrics pe MAX_SHUTDOWN_FLUSH_BATCHES menv mt;
          l = (if sm_lost m \<noteq> None then \<lparr>sl_shipped = [], sl_lost = None, sl_after = lt\<rparr>
               else flush_remaining_logs pe MAX_SHUTDOWN_FLUSH_BATCHES lenv lt)
      in (m, l))"

section \<open>Ledgers\<close>

text \<open>
  The balance of a tail: what the buffer owes, what is in flight and what the task has shipped, less
  what has been recorded. No step changes it.
\<close>

abbreviation recorded :: "bool \<Rightarrow> producer_op list \<Rightarrow> u64" where
  "recorded c ops \<equiv> of_nat (cnt (\<lambda>s. sample_billable s = c) (produced ops))"

definition lost_worth :: "bool \<Rightarrow> drained option \<Rightarrow> u64" where
  "lost_worth c d = (case d of None \<Rightarrow> 0 | Some b \<Rightarrow> worth c b)"

definition in_flight :: "metrics_tail \<Rightarrow> drained option" where
  "in_flight st = (case mt_task st of Some (Some (d, msg)) \<Rightarrow> Some d | _ \<Rightarrow> None)"

definition tail_balance :: "bool \<Rightarrow> metrics_tail \<Rightarrow> u64" where
  "tail_balance c st =
     owed c (mt_buf st) + lost_worth c (in_flight st) + sum_list (map (worth c \<circ> fst) (mt_task_shipped st))
     - recorded c (mt_calls st)"

lemma tail_drain:
  assumes "metrics_inv b" and "drain now b = (d, b1)"
  shows "metrics_inv b1" and "owed c b = worth c d + owed c b1"
  using metrics_inv_drain[OF assms(1), of now] metrics_lane.owed_take[OF assms(1), of c now] assms(2) by simp_all

lemma in_flight_dropped:
  assumes "metrics_inv b"
  shows "metrics_inv (in_flight_drop batch b)" and "owed c (in_flight_drop batch b) = owed c b + lost_worth c batch"
  using in_flight_drop_armed[OF assms] assms
  by (cases batch; simp add: in_flight_drop_def[of None] lost_worth_def)+

lemma tail_step_inv: "metrics_inv (mt_buf st) \<Longrightarrow> metrics_inv (mt_buf (tail_step pe op st))"
  by (cases op)
     (auto simp: metrics_inv_produce metrics_inv_frame[of "_\<lparr>flush_early := False\<rparr>"] in_flight_dropped(1)
       dest: tail_drain(1) split: option.splits prod.splits)

lemma tail_step_balance:
  assumes "metrics_inv (mt_buf st)"
  shows "tail_balance c (tail_step pe op st) = tail_balance c st"
proof (cases op)
  case (Producing p)
  have "owed c (produce p (mt_buf st)) = owed c (mt_buf st) + recorded c [p]"
    using owed_produces[OF assms, of c "[p]"] by simp
  then show ?thesis by (simp add: Producing tail_balance_def in_flight_def)
next
  case TaskWakesEarly
  then show ?thesis by (simp add: tail_balance_def in_flight_def owed_frame[of "_\<lparr>flush_early := False\<rparr>" "mt_buf st"] drops_of_def)
next
  case (TaskDrains now)
  obtain d b1 where dr: "drain now (mt_buf st) = (d, b1)" by (cases "drain now (mt_buf st)")
  note tail_drain(2)[OF assms dr, of c]
  then show ?thesis using is_empty_worth[of d c] batch_to_message_None[of pe now d]
    by (auto simp: TaskDrains dr tail_balance_def in_flight_def lost_worth_def split: option.splits)
qed (auto simp: tail_balance_def in_flight_def in_flight_dropped(2)[OF assms] lost_worth_def split: option.splits)

interpretation metrics_tail: conserving_steps "\<lambda>st. metrics_inv (mt_buf st)" "tail_balance c" "tail_step pe" for c pe
  by unfold_locales (rule tail_step_inv tail_step_balance, assumption)+

definition shutdown_balanced :: "metrics_tail \<Rightarrow> shutdown_metrics \<Rightarrow> bool" where
  "shutdown_balanced st m \<longleftrightarrow> metrics_inv (mt_buf (sm_after m)) \<and>
     (\<forall>c. tail_balance c st = sum_list (map (worth c \<circ> fst) (sm_shipped m)) + lost_worth c (sm_lost m)
            + tail_balance c (sm_after m))"

lemma tail_balance_drain:
  assumes "metrics_inv (mt_buf st)" and "drain now (mt_buf st) = (d, b1)"
  shows "tail_balance c st = worth c d + tail_balance c (st\<lparr>mt_buf := b1\<rparr>)"
  using tail_drain(2)[OF assms, of c] by (simp add: tail_balance_def in_flight_def)

lemma flush_remaining_metrics_balanced:
  "metrics_inv (mt_buf st) \<Longrightarrow> shutdown_balanced st (flush_remaining_metrics pe n env st)"
proof (induction n arbitrary: env st)
  case (Suc n)
  let ?st0 = "fold (tail_step pe) (sh_before (env 0)) st"
  obtain d b1 where dr: "drain (sh_now (env 0)) (mt_buf ?st0) = (d, b1)"
    by (cases "drain (sh_now (env 0)) (mt_buf ?st0)")
  let ?st1 = "?st0\<lparr>mt_buf := b1\<rparr>" and ?st2 = "fold (tail_step pe) (sh_during (env 0)) (?st0\<lparr>mt_buf := b1\<rparr>)"
  have i0: "metrics_inv (mt_buf ?st0)" using Suc.prems by (rule metrics_tail.inv_steps)
  have i1: "metrics_inv (mt_buf ?st1)" using tail_drain(1)[OF i0 dr] by simp
  have i2: "metrics_inv (mt_buf ?st2)" using i1 by (rule metrics_tail.inv_steps)
  have b1: "tail_balance c st = worth c d + tail_balance c ?st1" for c
    using metrics_tail.quantity_steps[OF Suc.prems] tail_balance_drain[OF i0 dr] by metis
  have b2: "tail_balance c st = worth c d + tail_balance c ?st2" for c
    using b1 metrics_tail.quantity_steps[OF i1] by metis
  show ?case
  proof (cases "is_empty d")
    case True
    with b1 i1 show ?thesis
      by (simp add: dr Let_def shutdown_balanced_def lost_worth_def batch_to_message_def is_empty_worth)
  next
    case False
    then obtain msg where msg: "batch_to_message pe (sh_now (env 0)) d = Some msg"
      using batch_to_message_None[of pe "sh_now (env 0)" d] by auto
    from Suc.IH[OF i2, of "\<lambda>i. env (Suc i)"] False i2 b2 show ?thesis
      by (simp add: dr msg Let_def shutdown_balanced_def lost_worth_def add.assoc)
  qed
qed (simp add: shutdown_balanced_def lost_worth_def)

lemma settle_balance:
  assumes "metrics_inv (mt_buf st)"
  shows "metrics_inv (mt_buf (settle pe ops st))" and "tail_balance c (settle pe ops st) = tail_balance c st"
    and "in_flight (settle pe ops st) = None"
proof -
  have inv: "metrics_inv (mt_buf (fold (tail_step pe) ops st))" using assms by (rule metrics_tail.inv_steps)
  then show "metrics_inv (mt_buf (settle pe ops st))" "tail_balance c (settle pe ops st) = tail_balance c st"
    unfolding settle_def
    by (simp_all only: tail_step_inv tail_step_balance metrics_tail.quantity_steps[OF assms])
  show "in_flight (settle pe ops st) = None"
    by (simp add: settle_def in_flight_def split: option.split)
qed

text \<open>The log lane: the batches that were in flight when the task went away are a term of the balance.\<close>

definition lost_lines :: "log_drained option \<Rightarrow> u64" where
  "lost_lines d = (case d of None \<Rightarrow> 0 | Some b \<Rightarrow> log_lane.worth b)"

definition log_in_flight :: "log_tail \<Rightarrow> log_drained option" where
  "log_in_flight st = (case lt_task st of Some (Some (d, msg)) \<Rightarrow> Some d | _ \<Rightarrow> None)"

definition log_tail_balance :: "log_tail \<Rightarrow> u64" where
  "log_tail_balance st =
     log_lane.owed (lt_buf st) + lost_lines (log_in_flight st)
     + sum_list (map (log_lane.worth \<circ> fst) (lt_task_shipped st)) + sum_list (map log_lane.worth (lt_lost st))
     - of_nat (length (lt_lines st))"

lemma log_batch_None: "log_batch_to_message pe now d = None \<Longrightarrow> log_lane.worth d = 0"
  by (auto simp: log_batch_to_message_def log_lane.worth_def split: prod.splits if_splits)

lemma log_tail_drain:
  assumes "log_inv b" and "log_drain b = (d, b1)"
  shows "log_inv b1" and "log_lane.owed b = log_lane.worth d + log_lane.owed b1"
  using log_lane.inv_take[OF assms(1)] log_lane.owed_take[OF assms(1)] assms(2) by simp_all

lemma drop_log_task_balance:
  "lt_buf (drop_log_task st) = lt_buf st" "log_tail_balance (drop_log_task st) = log_tail_balance st"
  "log_in_flight (drop_log_task st) = None"
  by (auto simp: drop_log_task_def log_tail_balance_def log_in_flight_def lost_lines_def split: option.split)

lemma log_tail_step_inv: "log_inv (lt_buf st) \<Longrightarrow> log_inv (lt_buf (log_tail_step pe op st))"
  by (cases op)
     (auto simp: log_inv_record drop_log_task_balance dest: log_tail_drain(1) split: option.splits prod.splits)

lemma log_tail_step_balance:
  assumes "log_inv (lt_buf st)"
  shows "log_tail_balance (log_tail_step pe op st) = log_tail_balance st"
proof (cases op)
  case (Recording l)
  have "log_lane.owed (record_line l (lt_buf st)) = log_lane.owed (lt_buf st) + 1"
    using log_lane.owed_put[OF assms, of l] by simp
  then show ?thesis by (simp add: Recording log_tail_balance_def log_in_flight_def)
next
  case (LogTaskDrains now)
  obtain d b1 where dr: "log_drain (lt_buf st) = (d, b1)" by (cases "log_drain (lt_buf st)")
  note log_tail_drain(2)[OF assms dr]
  then show ?thesis using log_batch_None[of pe now d]
    by (auto simp: LogTaskDrains dr log_tail_balance_def log_in_flight_def lost_lines_def split: option.splits)
next
  case LogTaskSends
  then show ?thesis
    by (auto simp: log_tail_balance_def log_in_flight_def lost_lines_def split: option.splits)
qed (auto simp: drop_log_task_balance split: option.splits)

interpretation log_tail: conserving_steps "\<lambda>st. log_inv (lt_buf st)" log_tail_balance "log_tail_step pe" for pe
  by unfold_locales (rule log_tail_step_inv log_tail_step_balance, assumption)+

definition shutdown_logs_balanced :: "log_tail \<Rightarrow> shutdown_logs \<Rightarrow> bool" where
  "shutdown_logs_balanced st l \<longleftrightarrow> log_inv (lt_buf (sl_after l)) \<and>
     log_tail_balance st = sum_list (map (log_lane.worth \<circ> fst) (sl_shipped l)) + lost_lines (sl_lost l)
       + log_tail_balance (sl_after l)"

lemma log_tail_balance_drain:
  assumes "log_inv (lt_buf st)" and "log_drain (lt_buf st) = (d, b1)"
  shows "log_tail_balance st = log_lane.worth d + log_tail_balance (st\<lparr>lt_buf := b1\<rparr>)"
  using log_tail_drain(2)[OF assms] by (simp add: log_tail_balance_def log_in_flight_def)

lemma flush_remaining_logs_balanced:
  "log_inv (lt_buf st) \<Longrightarrow> shutdown_logs_balanced st (flush_remaining_logs pe n env st)"
proof (induction n arbitrary: env st)
  case (Suc n)
  let ?st0 = "fold (log_tail_step pe) (shl_before (env 0)) st"
  obtain d b1 where dr: "log_drain (lt_buf ?st0) = (d, b1)" by (cases "log_drain (lt_buf ?st0)")
  let ?st1 = "?st0\<lparr>lt_buf := b1\<rparr>" and ?st2 = "fold (log_tail_step pe) (shl_during (env 0)) (?st0\<lparr>lt_buf := b1\<rparr>)"
  have i0: "log_inv (lt_buf ?st0)" using Suc.prems by (rule log_tail.inv_steps)
  have i1: "log_inv (lt_buf ?st1)" using log_tail_drain(1)[OF i0 dr] by simp
  have i2: "log_inv (lt_buf ?st2)" using i1 by (rule log_tail.inv_steps)
  have b1: "log_tail_balance st = log_lane.worth d + log_tail_balance ?st1"
    using log_tail.quantity_steps[OF Suc.prems] log_tail_balance_drain[OF i0 dr] by metis
  have b2: "log_tail_balance st = log_lane.worth d + log_tail_balance ?st2"
    using b1 log_tail.quantity_steps[OF i1] by metis
  show ?case
  proof (cases "log_batch_to_message pe (shl_now (env 0)) d")
    case None
    from Suc.IH[OF i1, of "\<lambda>i. env (Suc i)"] i1 b1 log_batch_None[OF None] show ?thesis
      by (simp add: dr None Let_def shutdown_logs_balanced_def lost_lines_def)
  next
    case (Some msg)
    from Suc.IH[OF i2, of "\<lambda>i. env (Suc i)"] i2 b2 show ?thesis
      by (simp add: dr Some Let_def shutdown_logs_balanced_def lost_lines_def add.assoc)
  qed
qed (simp add: shutdown_logs_balanced_def lost_lines_def)

lemma log_settle_balance:
  assumes "log_inv (lt_buf st)"
  shows "log_inv (lt_buf (log_settle pe ops st))" and "log_tail_balance (log_settle pe ops st) = log_tail_balance st"
    and "log_in_flight (log_settle pe ops st) = None"
  using log_tail.inv_steps[OF assms] log_tail.quantity_steps[OF assms]
  by (simp_all add: log_settle_def drop_log_task_balance)

section \<open>An undisturbed final flush\<close>

text \<open>
  While the final flush runs nothing else touches the lane and the channel takes every message; what
  happens before its first drain is free.
\<close>

definition undisturbed :: "(nat \<Rightarrow> shutdown_send) \<Rightarrow> bool" where
  "undisturbed env \<longleftrightarrow> (\<forall>i. (0 < i \<longrightarrow> sh_before (env i) = []) \<and> sh_during (env i) = [] \<and> sh_open (env i))"

definition undisturbed_logs :: "(nat \<Rightarrow> shutdown_log_send) \<Rightarrow> bool" where
  "undisturbed_logs env \<longleftrightarrow> (\<forall>i. (0 < i \<longrightarrow> shl_before (env i) = []) \<and> shl_during (env i) = [] \<and> shl_open (env i))"

text \<open>The tail at the first drain.\<close>

abbreviation at_first_drain :: "proto_enums \<Rightarrow> (nat \<Rightarrow> shutdown_send) \<Rightarrow> metrics_tail \<Rightarrow> metrics_tail" where
  "at_first_drain pe env st \<equiv> fold (tail_step pe) (sh_before (env 0)) st"

abbreviation at_first_log_drain :: "proto_enums \<Rightarrow> (nat \<Rightarrow> shutdown_log_send) \<Rightarrow> log_tail \<Rightarrow> log_tail" where
  "at_first_log_drain pe env st \<equiv> fold (log_tail_step pe) (shl_before (env 0)) st"

definition flushed :: "metrics_tail \<Rightarrow> shutdown_metrics \<Rightarrow> bool" where
  "flushed st m \<longleftrightarrow> sm_lost m = None
     \<and> concat (map (batch_samples \<circ> fst) (sm_shipped m)) = samples (buf (mt_buf st))
     \<and> samples (buf (mt_buf (sm_after m))) = []
     \<and> dropped_overflow (mt_buf (sm_after m)) = 0 \<and> dropped_non_billable (mt_buf (sm_after m)) = 0
     \<and> events (mt_buf (sm_after m)) = events_rollup_default
     \<and> cap (mt_buf (sm_after m)) = cap (mt_buf st)
     \<and> mt_task (sm_after m) = mt_task st \<and> mt_task_shipped (sm_after m) = mt_task_shipped st
     \<and> mt_calls (sm_after m) = mt_calls st"

definition logs_flushed :: "log_tail \<Rightarrow> shutdown_logs \<Rightarrow> bool" where
  "logs_flushed st l \<longleftrightarrow> sl_lost l = None
     \<and> concat (map (fst \<circ> fst) (sl_shipped l)) = log_buf (lt_buf st)
     \<and> log_buf (lt_buf (sl_after l)) = [] \<and> log_dropped_overflow (lt_buf (sl_after l)) = 0
     \<and> lt_task (sl_after l) = lt_task st \<and> lt_lost (sl_after l) = lt_lost st"

lemma flush_remaining_metrics_undisturbed:
  assumes "undisturbed env" and "0 < batch_cap (mt_buf (at_first_drain pe env st))"
    and "length (samples (buf (mt_buf (at_first_drain pe env st)))) \<le> n * batch_cap (mt_buf (at_first_drain pe env st))"
    and "0 < n"
  shows "flushed (at_first_drain pe env st) (flush_remaining_metrics pe n env st)"
  using assms
proof (induction n arbitrary: env st)
  case (Suc n)
  let ?st0 = "at_first_drain pe env st"
  let ?b = "mt_buf ?st0" and ?now = "sh_now (env 0)"
  have e: "sh_during (env 0) = []" "sh_open (env 0)" "sh_before (env (Suc 0)) = []"
    and env': "undisturbed (\<lambda>i. env (Suc i))"
    using Suc.prems(1) by (simp_all add: undisturbed_def)
  obtain d b1 where dr: "drain ?now ?b = (d, b1)" by (cases "drain ?now ?b")
  have d: "batch_samples d = take (batch_cap ?b) (samples (buf ?b))" "samples (buf b1) = drop (batch_cap ?b) (samples (buf ?b))"
    "batch_cap b1 = batch_cap ?b" "events b1 = events_rollup_default" "cap b1 = cap ?b"
    "dropped_overflow b1 = 0" "dropped_non_billable b1 = 0"
    using drain_sel(1,2,6-11)[of ?now ?b] drain_sel(4)[of True ?now ?b] drain_sel(4)[of False ?now ?b]
    by (simp_all add: dr drops_of_def)
  show ?case
  proof (cases "is_empty d")
    case True
    then have "samples (buf ?b) = []" using Suc.prems(2) d(1) by (simp add: is_empty_def)
    with True d show ?thesis by (simp add: dr e Let_def batch_to_message_def flushed_def)
  next
    case False
    then obtain msg where msg: "batch_to_message pe ?now d = Some msg"
      using batch_to_message_None[of pe ?now d] by auto
    show ?thesis
    proof (cases n)
      case 0
      then have "length (samples (buf ?b)) \<le> batch_cap ?b" using Suc.prems(3) by simp
      with 0 False msg d show ?thesis by (simp add: dr e Let_def flushed_def)
    next
      case (Suc n')
      have "length (samples (buf b1)) \<le> n * batch_cap b1" using Suc.prems(3) by (simp add: d)
      with Suc.IH[OF env', of "?st0\<lparr>mt_buf := b1\<rparr>"] Suc.prems(2) Suc d(3) e(3)
      have "flushed (?st0\<lparr>mt_buf := b1\<rparr>) (flush_remaining_metrics pe n (\<lambda>i. env (Suc i)) (?st0\<lparr>mt_buf := b1\<rparr>))"
        by simp
      with False msg d show ?thesis by (simp add: dr e Let_def flushed_def comp_def)
    qed
  qed
qed simp

lemma flush_remaining_logs_undisturbed:
  assumes "undisturbed_logs env" and "0 < log_batch_cap (lt_buf (at_first_log_drain pe env st))"
    and "length (log_buf (lt_buf (at_first_log_drain pe env st))) \<le> n * log_batch_cap (lt_buf (at_first_log_drain pe env st))"
    and "0 < n"
  shows "logs_flushed (at_first_log_drain pe env st) (flush_remaining_logs pe n env st)"
  using assms
proof (induction n arbitrary: env st)
  case (Suc n)
  let ?st0 = "at_first_log_drain pe env st"
  let ?b = "lt_buf ?st0"
  have e: "shl_during (env 0) = []" "shl_open (env 0)" "shl_before (env (Suc 0)) = []"
    and env': "undisturbed_logs (\<lambda>i. env (Suc i))"
    using Suc.prems(1) by (simp_all add: undisturbed_logs_def)
  obtain ls dropped sq b1 where dr: "log_drain ?b = ((ls, dropped, sq), b1)" by (cases "log_drain ?b") auto
  have d: "ls = take (log_batch_cap ?b) (log_buf ?b)" "log_buf b1 = drop (log_batch_cap ?b) (log_buf ?b)"
    "log_batch_cap b1 = log_batch_cap ?b" "log_dropped_overflow b1 = 0"
    using log_drain_sel[of ?b] by (simp_all add: dr)
  show ?case
  proof (cases "ls = [] \<and> dropped = 0")
    case True
    then have "log_buf ?b = []" using Suc.prems(2) d(1) by simp
    with True d show ?thesis by (simp add: dr e Let_def log_batch_to_message_def logs_flushed_def)
  next
    case False
    show ?thesis
    proof (cases n)
      case 0
      then have "length (log_buf ?b) \<le> log_batch_cap ?b" using Suc.prems(3) by simp
      with 0 False d show ?thesis by (simp add: dr e Let_def log_batch_to_message_def logs_flushed_def)
    next
      case (Suc n')
      have "length (log_buf b1) \<le> n * log_batch_cap b1" using Suc.prems(3) by (simp add: d)
      with Suc.IH[OF env', of "?st0\<lparr>lt_buf := b1\<rparr>"] Suc.prems(2) Suc d(3) e(3)
      have "logs_flushed (?st0\<lparr>lt_buf := b1\<rparr>) (flush_remaining_logs pe n (\<lambda>i. env (Suc i)) (?st0\<lparr>lt_buf := b1\<rparr>))"
        by simp
      with False d show ?thesis by (auto simp: dr e Let_def log_batch_to_message_def logs_flushed_def comp_def)
    qed
  qed
qed simp

lemma tail_step_caps:
  "cap (mt_buf (tail_step pe op st)) = cap (mt_buf st)" "batch_cap (mt_buf (tail_step pe op st)) = batch_cap (mt_buf st)"
  using drain_sel(7,8)
  by (cases op; auto split: option.splits prod.splits; metis snd_conv)+

lemma tail_steps_caps [simp]:
  "cap (mt_buf (fold (tail_step pe) ops st)) = cap (mt_buf st)"
  "batch_cap (mt_buf (fold (tail_step pe) ops st)) = batch_cap (mt_buf st)"
  by (induction ops arbitrary: st) (simp_all add: tail_step_caps)

lemma log_tail_step_caps:
  "log_cap (lt_buf (log_tail_step pe op st)) = log_cap (lt_buf st)"
  "log_batch_cap (lt_buf (log_tail_step pe op st)) = log_batch_cap (lt_buf st)"
  using log_drain_sel(6,7)
  by (cases op; auto simp: drop_log_task_def split: option.splits prod.splits; metis snd_conv)+

lemma log_tail_steps_caps [simp]:
  "log_cap (lt_buf (fold (log_tail_step pe) ops st)) = log_cap (lt_buf st)"
  "log_batch_cap (lt_buf (fold (log_tail_step pe) ops st)) = log_batch_cap (lt_buf st)"
  by (induction ops arbitrary: st) (simp_all add: log_tail_step_caps)

text \<open>The bound of 16 batches covers a buffer whose cap is at most 16 batches.\<close>

lemma final_metrics_flushed:
  assumes "metrics_inv (mt_buf st)" and "undisturbed env"
    and "0 < batch_cap (mt_buf st)" and "0 < cap (mt_buf st)" and "cap (mt_buf st) \<le> 16 * batch_cap (mt_buf st)"
  shows "flushed (at_first_drain pe env st) (flush_remaining_metrics pe MAX_SHUTDOWN_FLUSH_BATCHES env st)"
  using metrics_tail.inv_steps[OF assms(1), of pe "sh_before (env 0)"] assms(2-)
  by (intro flush_remaining_metrics_undisturbed) (simp_all add: metrics_inv_def MAX_SHUTDOWN_FLUSH_BATCHES_def)

lemma final_logs_flushed:
  assumes "log_inv (lt_buf st)" and "undisturbed_logs env"
    and "0 < log_batch_cap (lt_buf st)" and "log_cap (lt_buf st) \<le> 16 * log_batch_cap (lt_buf st)"
  shows "logs_flushed (at_first_log_drain pe env st) (flush_remaining_logs pe MAX_SHUTDOWN_FLUSH_BATCHES env st)"
  using log_tail.inv_steps[OF assms(1), of pe "shl_before (env 0)"] assms(2-)
  by (intro flush_remaining_logs_undisturbed) (simp_all add: log_inv_def MAX_SHUTDOWN_FLUSH_BATCHES_def)

section \<open>Properties\<close>

text \<open>
  C7. The final flush ships everything it finds: when nothing else touches the lanes from its first
  drain of each on and the outbound channel takes the messages, it sends every call and every log line
  that is buffered at that drain, in order, and leaves both buffers empty with no drop unreported. Its
  bound of 16 batches per lane is enough for every buffer whose cap is at most 16 batches, as the
  default ones are. What a flush task has in flight is neither sent nor lost by it.
\<close>

theorem shutdown_flush_ships_everything:
  assumes "metrics_inv (mt_buf mt)" and "log_inv (lt_buf lt)" and "undisturbed menv" and "undisturbed_logs lenv"
    and "0 < batch_cap (mt_buf mt)" and "0 < cap (mt_buf mt)" and "cap (mt_buf mt) \<le> 16 * batch_cap (mt_buf mt)"
    and "0 < log_batch_cap (lt_buf lt)" and "log_cap (lt_buf lt) \<le> 16 * log_batch_cap (lt_buf lt)"
    and "flush_remaining pe menv lenv mt lt = (m, l)"
  shows "let mt0 = fold (tail_step pe) (sh_before (menv 0)) mt; lt0 = fold (log_tail_step pe) (shl_before (lenv 0)) lt;
             mt1 = sm_after m; lt1 = sl_after l
    in concat (map (batch_samples \<circ> fst) (sm_shipped m)) = samples (buf (mt_buf mt0))
      \<and> concat (map (fst \<circ> fst) (sl_shipped l)) = log_buf (lt_buf lt0)
      \<and> samples (buf (mt_buf mt1)) = [] \<and> log_buf (lt_buf lt1) = []
      \<and> dropped_overflow (mt_buf mt1) = 0 \<and> dropped_non_billable (mt_buf mt1) = 0
      \<and> log_dropped_overflow (lt_buf lt1) = 0 \<and> counts (events (mt_buf mt1)) = []
      \<and> mt_task mt1 = mt_task mt0 \<and> lt_task lt1 = lt_task lt0"
proof -
  note m = final_metrics_flushed[OF assms(1,3,5-7), of pe] and l = final_logs_flushed[OF assms(2,4,8,9), of pe]
  have "m = flush_remaining_metrics pe MAX_SHUTDOWN_FLUSH_BATCHES menv mt"
    "l = flush_remaining_logs pe MAX_SHUTDOWN_FLUSH_BATCHES lenv lt"
    using assms(10) m by (auto simp: flush_remaining_def Let_def flushed_def)
  with m l show ?thesis by (simp add: Let_def flushed_def logs_flushed_def events_rollup_default_def)
qed

definition idle_tail :: "metrics_buffer \<Rightarrow> metrics_tail" where
  "idle_tail b = \<lparr>mt_buf = b, mt_task = Some None, mt_task_shipped = [], mt_calls = []\<rparr>"

definition idle_log_tail :: "log_buffer \<Rightarrow> log_tail" where
  "idle_log_tail b = \<lparr>lt_buf = b, lt_task = Some None, lt_task_shipped = [], lt_lost = [], lt_lines = []\<rparr>"

definition demo_final :: "tail_op list \<Rightarrow> bool \<Rightarrow> nat \<Rightarrow> shutdown_send" where
  "demo_final ops up i =
     \<lparr>sh_before = (if i = 0 then ops else []), sh_now = DateTime 9 0, sh_during = [], sh_open = up\<rparr>"

definition demo_final_logs :: "nat \<Rightarrow> shutdown_log_send" where
  "demo_final_logs i = \<lparr>shl_before = [], shl_now = DateTime 9 0, shl_during = [], shl_open = True\<rparr>"

lemma demo_final_undisturbed:
  "undisturbed (demo_final ops True)" "undisturbed_logs demo_final_logs"
  by (simp_all add: undisturbed_def undisturbed_logs_def demo_final_def demo_final_logs_def)

theorem shutdown_flush_ships_everything_witness:
  "\<exists>m l. flush_remaining demo_enums (demo_final [AbortLands] True) demo_final_logs (idle_tail demo_buffer)
       (idle_log_tail (record_line (demo_line ''m0'') (log_with_caps 3 10))) = (m, l)
     \<and> concat (map (batch_samples \<circ> fst) (sm_shipped m)) = samples (buf demo_buffer)
     \<and> samples (buf (mt_buf (sm_after m))) = [] \<and> log_buf (lt_buf (sl_after l)) = []"
proof -
  let ?lb = "record_line (demo_line ''m0'') (log_with_caps 3 10)"
  let ?f = "flush_remaining demo_enums (demo_final [AbortLands] True) demo_final_logs (idle_tail demo_buffer) (idle_log_tail ?lb)"
  obtain m l where run: "?f = (m, l)" by (cases ?f)
  have "log_inv ?lb" by (intro log_inv_record) (simp add: log_inv_def)
  with shutdown_flush_ships_everything[OF _ _ demo_final_undisturbed _ _ _ _ _ run] run show ?thesis
    by (simp add: idle_tail_def idle_log_tail_def demo_buffer_inv demo_buffer_eval Let_def demo_final_def in_flight_drop_def)
qed

lemma MAX_SHUTDOWN_FLUSH_BATCHES_pos: "\<exists>n. MAX_SHUTDOWN_FLUSH_BATCHES = Suc n"
  by (cases MAX_SHUTDOWN_FLUSH_BATCHES) (auto simp: MAX_SHUTDOWN_FLUSH_BATCHES_def)

text \<open>
  When the outbound channel is already closed, the final flush loses its first batch: it has
  been drained and, unlike an aborted flush of the metrics lane, it is not put back, nor are its
  drops. The samples of that batch are in no report and no longer in the buffer.
\<close>

theorem closed_shutdown_flush_loses_a_batch:
  assumes "\<not> sh_open (menv 0)" and "sh_before (menv 0) = []" and "sh_during (menv 0) = []"
    and "0 < batch_cap (mt_buf mt)" and "samples (buf (mt_buf mt)) \<noteq> []"
    and "flush_remaining pe menv lenv mt lt = (m, l)"
  shows "sm_shipped m = [] \<and> sl_shipped l = []
    \<and> samples (buf (mt_buf (sm_after m))) = drop (batch_cap (mt_buf mt)) (samples (buf (mt_buf mt)))
    \<and> length (samples (buf (mt_buf (sm_after m)))) < length (samples (buf (mt_buf mt)))
    \<and> dropped_overflow (mt_buf (sm_after m)) = 0"
proof -
  let ?b = "mt_buf mt" and ?now = "sh_now (menv 0)"
  obtain d b1 where dr: "drain ?now ?b = (d, b1)" by (cases "drain ?now ?b")
  have d: "batch_samples d = take (batch_cap ?b) (samples (buf ?b))"
    "samples (buf b1) = drop (batch_cap ?b) (samples (buf ?b))" "dropped_overflow b1 = 0"
    using drain_sel(1,2)[of ?now ?b] drain_sel(4)[of True ?now ?b] by (simp_all add: dr drops_of_def)
  then have "\<not> is_empty d" using assms(4,5) by (simp add: is_empty_def)
  then obtain msg where "batch_to_message pe ?now d = Some msg"
    using batch_to_message_None[of pe ?now d] by auto
  then have "flush_remaining_metrics pe (Suc n) menv mt
      = \<lparr>sm_shipped = [], sm_lost = Some d, sm_after = mt\<lparr>mt_buf := b1\<rparr>\<rparr>" for n
    using assms(1-3) by (simp add: dr Let_def)
  then have fm: "flush_remaining_metrics pe MAX_SHUTDOWN_FLUSH_BATCHES menv mt
      = \<lparr>sm_shipped = [], sm_lost = Some d, sm_after = mt\<lparr>mt_buf := b1\<rparr>\<rparr>"
    using MAX_SHUTDOWN_FLUSH_BATCHES_pos by metis
  have "sm_shipped m = []" "sl_shipped l = []" "mt_buf (sm_after m) = b1"
    using assms(6) by (auto simp: flush_remaining_def Let_def fm)
  with d assms(4,5) show ?thesis by simp
qed

theorem closed_shutdown_flush_loses_a_batch_witness:
  "\<exists>m l. flush_remaining demo_enums (demo_final [] False) demo_final_logs (idle_tail demo_buffer) (idle_log_tail log_new) = (m, l)
     \<and> sm_shipped m = [] \<and> length (samples (buf (mt_buf (sm_after m)))) < length (samples (buf demo_buffer))"
proof -
  let ?f = "flush_remaining demo_enums (demo_final [] False) demo_final_logs (idle_tail demo_buffer) (idle_log_tail log_new)"
  obtain m l where run: "?f = (m, l)" by (cases ?f)
  from closed_shutdown_flush_loses_a_batch[OF _ _ _ _ _ run] run show ?thesis
    by (simp add: idle_tail_def demo_final_def demo_buffer_eval)
qed

text \<open>
  A batch in flight at the shutdown is stranded when the abort lands late. The flush task has just
  drained a buffer that fits one batch and waits for its send when the session ends. The final flush
  finds nothing, sends nothing and is over, whatever the channel would have taken; then the task is
  dropped and its guard returns the calls to a buffer that nobody flushes any more.
\<close>

theorem late_abort_strands_a_batch:
  assumes "mt_task mt = Some None" and "sh_before (menv 0) = [TaskDrains t]"
    and "samples (buf (mt_buf mt)) \<noteq> []" and "length (samples (buf (mt_buf mt))) \<le> batch_cap (mt_buf mt)"
    and "length (samples (buf (mt_buf mt))) \<le> cap (mt_buf mt)"
    and "flush_remaining pe menv lenv mt lt = (m, l)"
  shows "sm_shipped m = [] \<and> sm_lost m = None
    \<and> samples (buf (mt_buf (sm_after m))) = []
    \<and> samples (buf (mt_buf (settle pe [] (sm_after m)))) = samples (buf (mt_buf mt))"
proof -
  let ?b = "mt_buf mt" and ?now = "sh_now (menv 0)"
  obtain d b1 where dr: "drain t ?b = (d, b1)" by (cases "drain t ?b")
  have d: "batch_samples d = samples (buf ?b)" "samples (buf b1) = []" "events b1 = events_rollup_default" "cap b1 = cap ?b"
    "dropped_overflow b1 = 0" "dropped_non_billable b1 = 0"
    using assms(4) drain_sel(1,2,7,11)[of t ?b] drain_sel(4)[of True t ?b] drain_sel(4)[of False t ?b]
    by (simp_all add: dr drops_of_def)
  then have ne: "\<not> is_empty d" using assms(3) by (simp add: is_empty_def)
  then obtain msg where "batch_to_message pe t d = Some msg" using batch_to_message_None[of pe t d] by auto
  with assms(1,2) dr have st0: "at_first_drain pe menv mt = mt\<lparr>mt_buf := b1, mt_task := Some (Some (d, msg))\<rparr>" by simp
  obtain d' b2 where dr': "drain ?now b1 = (d', b2)" by (cases "drain ?now b1")
  have d': "samples (buf b2) = []" "cap b2 = cap ?b" "is_empty d'"
    using d dr' by (auto simp: is_empty_def drain_def Let_def events_rollup_default_def)
  have "flush_remaining_metrics pe (Suc n) menv mt = \<lparr>sm_shipped = [], sm_lost = None, sm_after = mt\<lparr>mt_buf := b2, mt_task := Some (Some (d, msg))\<rparr>\<rparr>" for n
    using d' batch_to_message_None[of pe ?now d'] by (simp add: st0[simplified] dr' Let_def)
  then have fm: "flush_remaining_metrics pe MAX_SHUTDOWN_FLUSH_BATCHES menv mt = \<lparr>sm_shipped = [], sm_lost = None, sm_after = mt\<lparr>mt_buf := b2, mt_task := Some (Some (d, msg))\<rparr>\<rparr>"
    using MAX_SHUTDOWN_FLUSH_BATCHES_pos by metis
  have "m = \<lparr>sm_shipped = [], sm_lost = None, sm_after = mt\<lparr>mt_buf := b2, mt_task := Some (Some (d, msg))\<rparr>\<rparr>"
    using assms(6) by (auto simp: flush_remaining_def Let_def fm)
  with d' d ne assms(5) show ?thesis
    by (simp add: settle_def in_flight_drop_def requeue_samples_buf)
qed

theorem late_abort_strands_a_batch_witness:
  "\<exists>m l. flush_remaining demo_enums (demo_final [TaskDrains (DateTime 8 0)] True) demo_final_logs
       (idle_tail demo_buffer) (idle_log_tail log_new) = (m, l)
     \<and> sm_shipped m = [] \<and> samples (buf (mt_buf (settle demo_enums [] (sm_after m)))) = samples (buf demo_buffer)"
proof -
  let ?f = "flush_remaining demo_enums (demo_final [TaskDrains (DateTime 8 0)] True) demo_final_logs
       (idle_tail demo_buffer) (idle_log_tail log_new)"
  obtain m l where run: "?f = (m, l)" by (cases ?f)
  from late_abort_strands_a_batch[OF _ _ _ _ _ run] run show ?thesis
    by (simp add: idle_tail_def demo_final_def demo_buffer_eval)
qed

end
