(* ===== verification/Status.thy ===== *)
theory Status
  imports Wire
begin

text \<open>
  \<open>src/status.rs\<close>: the periodic status report. There is no buffer; each tick asks the host
  for a snapshot, stamps the hash of the configuration in effect at that moment and ships it. The
  loop shares the cell of that hash with the reader of the session, which stores into it, so the cell is
  a function of time: what it holds once the reader has gone through the first \<open>n\<close> inbound items. Per
  tick the environment gives the snapshot, the clock, the moment at which the tick loads the cell, and
  whether the outbound channel still takes messages.
\<close>

definition DEFAULT_STATUS_INTERVAL :: duration where "DEFAULT_STATUS_INTERVAL = from_secs 60"

record plugin_status_sample =
  pss_id :: string
  pss_version :: string
  pss_state :: string
  pss_error :: string
  pss_invocations :: u64

record cluster_status_sample =
  css_kind :: string
  css_backend_up :: "bool option"
  css_peers :: "u32 option"

record delivery_refusal_sample =
  drs_reason :: string
  drs_proof_kid :: string

record status_snapshot =
  plugins :: "plugin_status_sample list"
  warnings :: "string list"
  cluster :: "cluster_status_sample option"
  secrets_digest :: string
  delivery_refusal :: "delivery_refusal_sample option"

definition snapshot_to_message :: "datetime \<Rightarrow> status_snapshot \<Rightarrow> string \<Rightarrow> agent_message" where
  "snapshot_to_message now snap config_hash =
     StatusReport
       \<lparr>sr_at = Some (pb_now now),
        sr_config_hash = config_hash,
        sr_plugins = map (\<lambda>p. \<lparr>ps_id = pss_id p, ps_version = pss_version p, ps_state = pss_state p,
                                ps_error = pss_error p, ps_invocations = pss_invocations p\<rparr>) (plugins snap),
        sr_resources = None,
        sr_warnings = warnings snap,
        sr_cluster = map_option (\<lambda>c. \<lparr>cs_kind = css_kind c, cs_backend_up = css_backend_up c,
                                      cs_peers = css_peers c\<rparr>) (cluster snap),
        sr_secrets_digest = secrets_digest snap,
        sr_delivery_refusal = map_option (\<lambda>r. \<lparr>dr_reason = drs_reason r, dr_proof_kid = drs_proof_kid r\<rparr>)
                                (delivery_refusal snap)\<rparr>"

record status_tick =
  st_snapshot :: status_snapshot
  st_now :: datetime
  st_seen :: nat
  st_open :: bool

text \<open>
  The messages the loop ships over the given ticks, and whether it is still running. \<open>config_hash\<close> is
  the shared cell over time; each tick loads it anew.
\<close>

fun status_loop :: "(nat \<Rightarrow> string option) \<Rightarrow> status_tick list \<Rightarrow> agent_message list \<times> bool" where
  "status_loop config_hash [] = ([], True)"
| "status_loop config_hash (t # ts) =
     (let msg = snapshot_to_message (st_now t) (st_snapshot t) (unwrap_or_default (config_hash (st_seen t)))
      in if st_open t then (case status_loop config_hash ts of (msgs, running) \<Rightarrow> (msg # msgs, running))
         else ([], False))"

text \<open>
  One report per tick, in order, until the channel closes. What the cell holds at each load, and with
  it what the reports of a session say, is the subject of \<open>ConfigTrack\<close>.
\<close>

lemma status_loop_reports:
  "status_loop config_hash ticks =
     (map (\<lambda>t. snapshot_to_message (st_now t) (st_snapshot t) (unwrap_or_default (config_hash (st_seen t))))
        (takeWhile st_open ticks),
      list_all st_open ticks)"
  by (induction ticks) (simp_all add: Let_def)

end
