(* ===== verification/External.thy ===== *)
theory External
  imports Prelude
begin

text \<open>
  What the crate takes from third-party packages, as parameters: AES-256-GCM and HKDF-SHA256
  (\<open>aes-gcm\<close>, \<open>hkdf\<close>), base64 (\<open>base64\<close>), OS randomness. The predicates state the documented
  behaviour that some properties rely on; nothing here says how the packages work.
\<close>

record crypto =
  gcm_encrypt :: "bytes \<Rightarrow> bytes \<Rightarrow> bytes \<Rightarrow> bytes \<Rightarrow> bytes option" \<comment> \<open>key, nonce, AAD, plaintext\<close>
  gcm_decrypt :: "bytes \<Rightarrow> bytes \<Rightarrow> bytes \<Rightarrow> bytes \<Rightarrow> bytes option" \<comment> \<open>key, nonce, AAD, ciphertext\<close>
  hkdf_sha256 :: "bytes \<Rightarrow> bytes \<Rightarrow> bytes \<Rightarrow> nat \<Rightarrow> bytes option" \<comment> \<open>salt, input key, info, length\<close>
  aead_error :: string \<comment> \<open>what the cipher's opaque error prints\<close>
  invalid_length :: string \<comment> \<open>what a key of the wrong length prints\<close>

record base64 =
  b64_encode :: "bytes \<Rightarrow> string"
  b64_decode :: "string \<Rightarrow> bytes option"

text \<open>\<open>rng n\<close>: \<open>n\<close> fresh random bytes, or \<open>None\<close> when the OS has none to give.\<close>

type_synonym rng = "nat \<Rightarrow> bytes option"

text \<open>Decryption under the same key, nonce and associated data undoes encryption.\<close>

definition gcm_roundtrip :: "crypto \<Rightarrow> bool" where
  "gcm_roundtrip C \<longleftrightarrow>
     (\<forall>k n a m c. gcm_encrypt C k n a m = Some c \<longrightarrow> gcm_decrypt C k n a c = Some m)"

text \<open>The ciphertext is the plaintext's length plus a 16-byte tag.\<close>

definition gcm_length :: "crypto \<Rightarrow> bool" where
  "gcm_length C \<longleftrightarrow>
     (\<forall>k n a m c. gcm_encrypt C k n a m = Some c \<longrightarrow> length c = length m + 16)"

text \<open>Keys of 32 bytes, nonces of 12 and plaintexts below the format's limit are accepted.\<close>

definition gcm_accepts :: "crypto \<Rightarrow> bool" where
  "gcm_accepts C \<longleftrightarrow>
     (\<forall>k n a m. length k = 32 \<and> length n = 12 \<and> length m < 2 ^ 36 \<longrightarrow> gcm_encrypt C k n a m \<noteq> None)"

definition hkdf_accepts :: "crypto \<Rightarrow> bool" where
  "hkdf_accepts C \<longleftrightarrow>
     (\<forall>salt ikm info n. n \<le> 255 * 32 \<longrightarrow> (\<exists>okm. hkdf_sha256 C salt ikm info n = Some okm \<and> length okm = n))"

definition b64_roundtrip :: "base64 \<Rightarrow> bool" where
  "b64_roundtrip B \<longleftrightarrow> (\<forall>bs. b64_decode B (b64_encode B bs) = Some bs)"

definition rng_works :: "rng \<Rightarrow> bool" where
  "rng_works r \<longleftrightarrow> (\<forall>n. \<exists>bs. r n = Some bs \<and> length bs = n)"

text \<open>
  Concrete parameters that meet the predicates, used to show that the hypotheses can hold: a
  cipher that appends sixteen zero bytes, and hexadecimal text for base64.
\<close>

definition demo_tag :: "bytes \<Rightarrow> bytes \<Rightarrow> bytes \<Rightarrow> bytes" where
  "demo_tag k n a = replicate 16 0"

definition demo_crypto :: crypto where
  "demo_crypto =
     \<lparr>gcm_encrypt = (\<lambda>k n a m. Some (m @ demo_tag k n a)),
      gcm_decrypt = (\<lambda>k n a c. if length c < 16 then None else Some (take (length c - 16) c)),
      hkdf_sha256 = (\<lambda>salt ikm info n. Some (replicate n 7)),
      aead_error = ''aead::Error'',
      invalid_length = ''Invalid Length''\<rparr>"

definition hex_digit :: "nat \<Rightarrow> char" where
  "hex_digit n = char_of (if n < 10 then 48 + n else 87 + n)"

definition hex_val :: "char \<Rightarrow> nat" where
  "hex_val c = (let n = of_char c in if n < 58 then n - 48 else n - 87)"

definition hex_encode :: "bytes \<Rightarrow> string" where
  "hex_encode bs = concat (map (\<lambda>b. [hex_digit (unat b div 16), hex_digit (unat b mod 16)]) bs)"

fun hex_decode :: "string \<Rightarrow> bytes option" where
  "hex_decode [] = Some []"
| "hex_decode (a # b # cs) = map_option ((#) (word_of_nat (16 * hex_val a + hex_val b))) (hex_decode cs)"
| "hex_decode [a] = None"

definition demo_base64 :: base64 where
  "demo_base64 = \<lparr>b64_encode = hex_encode, b64_decode = hex_decode\<rparr>"

definition demo_rng :: rng where
  "demo_rng n = Some (replicate n 5)"

lemma hex_val_digit: "n < 16 \<Longrightarrow> hex_val (hex_digit n) = n"
  by (simp add: hex_val_def hex_digit_def Let_def)

lemma hex_decode_encode: "hex_decode (hex_encode bs) = Some bs"
proof (induction bs)
  case (Cons b bs)
  have "unat b < 256" using unsigned_less[of b, where ?'a = nat] by simp
  then have "unat b div 16 < 16" by simp
  then show ?case
    using Cons by (simp add: hex_encode_def hex_val_digit)
qed (simp add: hex_encode_def)

lemma hex_encode_empty [simp]: "hex_encode bs = [] \<longleftrightarrow> bs = []"
  by (cases bs) (simp_all add: hex_encode_def)

lemma demo_parameters_ok:
  "gcm_roundtrip demo_crypto" "gcm_length demo_crypto" "gcm_accepts demo_crypto"
  "hkdf_accepts demo_crypto" "b64_roundtrip demo_base64" "rng_works demo_rng"
  by (auto simp: gcm_roundtrip_def gcm_length_def gcm_accepts_def hkdf_accepts_def b64_roundtrip_def
      rng_works_def demo_crypto_def demo_tag_def demo_base64_def demo_rng_def hex_decode_encode)

section \<open>Bytes and UTF-8\<close>

definition string_to_bytes :: "string \<Rightarrow> bytes" where
  "string_to_bytes s = map (\<lambda>c. word_of_nat (of_char c)) s"

definition bytes_to_string :: "bytes \<Rightarrow> string" where
  "bytes_to_string bs = map (\<lambda>b. char_of (unat b)) bs"

lemma byte_of_char [simp]: "unat (word_of_nat (of_char c) :: u8) = of_char c"
  using nat_of_char_less_256[of c] by (simp add: unat_of_nat)

lemma bytes_string_inverse [simp]:
  "string_to_bytes (bytes_to_string bs) = bs" "bytes_to_string (string_to_bytes s) = s"
proof -
  have "unat b mod 256 = unat b" for b :: u8
    using unsigned_less[of b, where ?'a = nat] by simp
  then show "string_to_bytes (bytes_to_string bs) = bs"
    by (simp add: string_to_bytes_def bytes_to_string_def comp_def map_idI)
  show "bytes_to_string (string_to_bytes s) = s"
    by (simp add: string_to_bytes_def bytes_to_string_def comp_def map_idI byte_of_char)
qed

text \<open>Well-formed UTF-8, as \<open>read_to_string\<close> requires it.\<close>

definition in_range :: "nat \<Rightarrow> nat \<Rightarrow> u8 \<Rightarrow> bool" where
  "in_range lo hi b \<longleftrightarrow> lo \<le> unat b \<and> unat b \<le> hi"

fun utf8_ok :: "bytes \<Rightarrow> bool" where
  "utf8_ok [] = True"
| "utf8_ok (a # bs) =
     (if in_range 0 127 a then utf8_ok bs
      else case bs of
        [] \<Rightarrow> False
      | b # cs \<Rightarrow>
          (if in_range 194 223 a then in_range 128 191 b \<and> utf8_ok cs
           else case cs of
             [] \<Rightarrow> False
           | c # ds \<Rightarrow>
               (if in_range 224 239 a
                then in_range (if a = 224 then 160 else 128) (if a = 237 then 159 else 191) b
                     \<and> in_range 128 191 c \<and> utf8_ok ds
                else case ds of
                  [] \<Rightarrow> False
                | d # es \<Rightarrow>
                    in_range 240 244 a
                    \<and> in_range (if a = 240 then 144 else 128) (if a = 244 then 143 else 191) b
                    \<and> in_range 128 191 c \<and> in_range 128 191 d \<and> utf8_ok es)))"

end
