(* ===== verification/FileSys.thy ===== *)
theory FileSys
  imports External
begin

text \<open>
  The part of \<open>std::fs\<close> and \<open>std::path\<close> the crate uses. A file system maps paths to
  files with content and permission bits and knows its directories. Every call consults an outcome
  oracle \<open>io\<close> that says whether it works; a write that fails may have truncated the file and
  written any prefix of its data, a rename is all or nothing. Since the callers stop at the first
  failed call, the states left behind by failures are also the states a crash can leave behind.
\<close>

section \<open>Paths\<close>

type_synonym path = "string list"

definition join :: "path \<Rightarrow> string \<Rightarrow> path" where
  "join p f = p @ [f]"

definition parent :: "path \<Rightarrow> path option" where
  "parent p = (if p = [] \<or> p = [''/''] then None else Some (butlast p))"

text \<open>The file name up to its last dot; a leading dot does not count.\<close>

definition file_stem :: "string \<Rightarrow> string" where
  "file_stem n =
     (if n = ''..'' then n
      else case split_once (CHR ''.'') (rev n) of
             None \<Rightarrow> n
           | Some (_, before) \<Rightarrow> if before = [] then n else rev before)"

definition with_extension :: "path \<Rightarrow> string \<Rightarrow> path" where
  "with_extension p ext =
     (if p = [] then p else butlast p @ [file_stem (last p) @ (if ext = [] then [] else ''.'' @ ext)])"

section \<open>Files\<close>

record fs_file =
  content :: bytes
  perm :: nat

record fs =
  files :: "path \<rightharpoonup> fs_file"
  dirs :: "path set"
  create_perm :: nat

datatype fs_op =
    OpStat path | OpRead path | OpWrite path | OpRename path path | OpChmod path | OpRemove path
  | OpMkdir path

datatype io_error = NotFound | IsADirectory | NotADirectory | InvalidData | IoFault

datatype io_outcome = Works | Fails "nat option"

type_synonym io = "fs_op \<Rightarrow> io_outcome"

definition mode_600 :: nat where "mode_600 = 384"

definition is_dir :: "path \<Rightarrow> fs \<Rightarrow> bool" where
  "is_dir p s = (p = [] \<or> p \<in> dirs s)"

definition path_exists :: "io \<Rightarrow> path \<Rightarrow> fs \<Rightarrow> bool" where
  "path_exists io p s = (io (OpStat p) = Works \<and> (files s p \<noteq> None \<or> is_dir p s))"

definition fs_read :: "io \<Rightarrow> path \<Rightarrow> (fs, io_error, bytes) action" where
  "fs_read io p s =
     (case files s p of
        None \<Rightarrow> (Inl (if is_dir p s then IsADirectory else NotFound), s)
      | Some f \<Rightarrow> (if io (OpRead p) = Works then (Inr (content f), s) else (Inl IoFault, s)))"

definition read_to_string :: "io \<Rightarrow> path \<Rightarrow> (fs, io_error, string) action" where
  "read_to_string io p =
     try_bind (fs_read io p) (\<lambda>bs s. (if utf8_ok bs then Inr (bytes_to_string bs) else Inl InvalidData, s))"

definition put_file :: "path \<Rightarrow> bytes \<Rightarrow> fs \<Rightarrow> fs" where
  "put_file p bs s =
     s\<lparr>files := (files s)(p \<mapsto>
        \<lparr>content = bs, perm = (case files s p of None \<Rightarrow> create_perm s | Some f \<Rightarrow> perm f)\<rparr>)\<rparr>"

definition fs_write :: "io \<Rightarrow> path \<Rightarrow> bytes \<Rightarrow> (fs, io_error, unit) action" where
  "fs_write io p bs s =
     (if is_dir p s then (Inl IsADirectory, s)
      else if \<not> is_dir (butlast p) s then (Inl NotFound, s)
      else case io (OpWrite p) of
             Works \<Rightarrow> (Inr (), put_file p bs s)
           | Fails None \<Rightarrow> (Inl IoFault, s)
           | Fails (Some n) \<Rightarrow> (Inl IoFault, put_file p (take n bs) s))"

definition fs_rename :: "io \<Rightarrow> path \<Rightarrow> path \<Rightarrow> (fs, io_error, unit) action" where
  "fs_rename io a b s =
     (case files s a of
        None \<Rightarrow> (Inl NotFound, s)
      | Some f \<Rightarrow>
          (if is_dir b s then (Inl IsADirectory, s)
           else if \<not> is_dir (butlast b) s then (Inl NotFound, s)
           else if io (OpRename a b) = Works
                then (Inr (), s\<lparr>files := ((files s)(a := None))(b \<mapsto> f)\<rparr>)
                else (Inl IoFault, s)))"

definition fs_chmod :: "io \<Rightarrow> path \<Rightarrow> nat \<Rightarrow> (fs, io_error, unit) action" where
  "fs_chmod io p m s =
     (case files s p of
        None \<Rightarrow> (Inl NotFound, s)
      | Some f \<Rightarrow>
          (if io (OpChmod p) = Works then (Inr (), s\<lparr>files := (files s)(p \<mapsto> f\<lparr>perm := m\<rparr>)\<rparr>)
           else (Inl IoFault, s)))"

definition fs_remove :: "io \<Rightarrow> path \<Rightarrow> (fs, io_error, unit) action" where
  "fs_remove io p s =
     (case files s p of
        None \<Rightarrow> (Inl (if is_dir p s then IsADirectory else NotFound), s)
      | Some f \<Rightarrow>
          (if io (OpRemove p) = Works then (Inr (), s\<lparr>files := (files s)(p := None)\<rparr>)
           else (Inl IoFault, s)))"

definition create_dir_all :: "io \<Rightarrow> path \<Rightarrow> (fs, io_error, unit) action" where
  "create_dir_all io p s =
     (if \<exists>q \<in> set (prefixes p). files s q \<noteq> None then (Inl NotADirectory, s)
      else case io (OpMkdir p) of
             Works \<Rightarrow> (Inr (), s\<lparr>dirs := dirs s \<union> set (prefixes p)\<rparr>)
           | Fails None \<Rightarrow> (Inl IoFault, s)
           | Fails (Some n) \<Rightarrow> (Inl IoFault, s\<lparr>dirs := dirs s \<union> set (take n (prefixes p))\<rparr>))"

section \<open>Frame lemmas\<close>

lemma fs_read_state [simp]: "snd (fs_read io p s) = s"
  by (simp add: fs_read_def split: option.splits)

lemma read_to_string_state [simp]: "snd (read_to_string io p s) = s"
  using fs_read_state[of io p s]
  by (cases "fs_read io p s"; cases "fst (fs_read io p s)") (auto simp: read_to_string_def)

lemma put_file_sel [simp]:
  "files (put_file p bs s) q = (if q = p then Some \<lparr>content = bs, perm = (case files s p of None \<Rightarrow> create_perm s | Some f \<Rightarrow> perm f)\<rparr> else files s q)"
  "dirs (put_file p bs s) = dirs s"
  "create_perm (put_file p bs s) = create_perm s"
  by (simp_all add: put_file_def)

lemma create_dir_all_files [simp]: "files (snd (create_dir_all io p s)) = files s"
  by (simp add: create_dir_all_def split: io_outcome.splits option.splits)

lemma fs_write_frame: "q \<noteq> p \<Longrightarrow> files (snd (fs_write io p bs s)) q = files s q"
  by (simp add: fs_write_def split: io_outcome.splits option.splits)

lemma fs_chmod_content:
  "map_option content (files (snd (fs_chmod io p m s)) q) = map_option content (files s q)"
  by (simp add: fs_chmod_def split: option.splits)

lemma fs_write_dirs [simp]: "dirs (snd (fs_write io p bs s)) = dirs s"
  by (simp add: fs_write_def split: io_outcome.splits option.splits)

lemma fs_chmod_dirs [simp]: "dirs (snd (fs_chmod io p m s)) = dirs s"
  by (simp add: fs_chmod_def split: option.splits)

lemma fs_rename_dirs [simp]: "dirs (snd (fs_rename io a b s)) = dirs s"
  by (simp add: fs_rename_def split: option.splits)

abbreviation all_works :: io where
  "all_works \<equiv> \<lambda>_. Works"

text \<open>The oracle with its reads and existence checks healthy; everything that writes may still fail.\<close>

definition reads_work :: "io \<Rightarrow> io" where
  "reads_work io = (\<lambda>op. case op of OpRead _ \<Rightarrow> Works | OpStat _ \<Rightarrow> Works | _ \<Rightarrow> io op)"

lemma reads_work_simps [simp]:
  "reads_work io (OpRead p) = Works" "reads_work io (OpStat p) = Works"
  by (simp_all add: reads_work_def)

lemma path_exists_reads_work [simp]:
  "path_exists (reads_work io) p s \<longleftrightarrow> files s p \<noteq> None \<or> is_dir p s"
  by (simp add: path_exists_def)

abbreviation file_content :: "path \<Rightarrow> fs \<Rightarrow> bytes option" where
  "file_content p s \<equiv> map_option content (files s p)"

section \<open>Replacing a file through a temporary\<close>

text \<open>
  The pattern of every state file the crate rewrites: write a sibling, optionally set its mode, then
  rename it over the target. Whatever fails, the target holds what it held or the complete new data.
\<close>

lemma fs_write_Inr:
  "fs_write io p bs s = (Inr u, s') \<Longrightarrow> s' = put_file p bs s"
  by (auto simp: fs_write_def split: if_splits io_outcome.splits option.splits)

lemma fs_rename_cases:
  "a \<noteq> b \<Longrightarrow> fs_rename io a b s = (r, s') \<Longrightarrow>
     (\<exists>f. r = Inr () \<and> files s a = Some f \<and> s' = s\<lparr>files := ((files s)(a := None))(b \<mapsto> f)\<rparr>)
   \<or> (\<exists>e. r = Inl e \<and> s' = s)"
  by (auto simp: fs_rename_def split: if_splits option.splits)

lemma fs_chmod_frame: "q \<noteq> p \<Longrightarrow> files (snd (fs_chmod io p m s)) q = files s q"
  by (simp add: fs_chmod_def split: option.splits)

lemma fs_chmod_Inr:
  "fs_chmod io p m s = (Inr u, s') \<Longrightarrow>
     \<exists>f. files s p = Some f \<and> s' = s\<lparr>files := (files s)(p \<mapsto> f\<lparr>perm := m\<rparr>)\<rparr>"
  by (auto simp: fs_chmod_def split: if_splits option.splits)

section \<open>State files as atomic cells\<close>

text \<open>
  The contract of a state file. A \<open>step\<close> either succeeds and applies its update to the
  visible content or fails and leaves the visible content alone; nothing in between is visible.
  \<open>upd\<close> is the abstract specification, a plain register. The lemma says what any series of
  steps leaves behind: the updates of exactly the steps that reported success, in order.
\<close>

fun cell_run :: "('x \<Rightarrow> 's \<Rightarrow> ('e + unit) \<times> 's) \<Rightarrow> 'x list \<Rightarrow> 's \<Rightarrow> 'x list \<times> 's" where
  "cell_run step [] s = ([], s)"
| "cell_run step (x # xs) s =
     (case step x s of
        (Inr _, s') \<Rightarrow> (case cell_run step xs s' of (done, t) \<Rightarrow> (x # done, t))
      | (Inl _, s') \<Rightarrow> cell_run step xs s')"

lemma cell_run_subseq: "subseq (fst (cell_run step xs s)) xs"
proof (induction xs arbitrary: s)
  case (Cons x xs)
  obtain r s' where step: "step x s = (r, s')" by (cases "step x s")
  show ?case using Cons[of s'] by (cases r) (auto simp: step split_def)
qed simp

lemma cell_run_subset: "set (fst (cell_run step xs s)) \<subseteq> set xs"
  using list_emb_set[OF cell_run_subseq[of step xs s]] by blast

locale atomic_cell =
  fixes inv :: "'s \<Rightarrow> bool"
    and view :: "'s \<Rightarrow> 'v"
    and step :: "'x \<Rightarrow> 's \<Rightarrow> ('e + unit) \<times> 's"
    and upd :: "'x \<Rightarrow> 'v \<Rightarrow> 'v"
  assumes inv_step: "inv s \<Longrightarrow> inv (snd (step x s))"
    and step_ok: "inv s \<Longrightarrow> fst (step x s) = Inr u \<Longrightarrow> view (snd (step x s)) = upd x (view s)"
    and step_err: "inv s \<Longrightarrow> fst (step x s) = Inl e \<Longrightarrow> view (snd (step x s)) = view s"
begin

lemma step_cases: "inv s \<Longrightarrow> view (snd (step x s)) \<in> {view s, upd x (view s)}"
  using step_ok[of s x] step_err[of s x] by (cases "fst (step x s)") auto

lemma run_refines_register:
  "inv s \<Longrightarrow> inv (snd (cell_run step xs s))
     \<and> view (snd (cell_run step xs s)) = fold upd (fst (cell_run step xs s)) (view s)"
proof (induction xs arbitrary: s)
  case (Cons x xs)
  obtain r s' where step: "step x s = (r, s')" by (cases "step x s")
  have "inv s'" using inv_step[OF Cons.prems, of x] step by simp
  moreover have "view s' = (case r of Inr _ \<Rightarrow> upd x (view s) | Inl _ \<Rightarrow> view s)"
    using step_ok[OF Cons.prems, of x] step_err[OF Cons.prems, of x] step by (cases r) auto
  ultimately show ?case
    using Cons.IH[of s'] step by (cases r) (auto simp: split_def)
qed simp

lemma run_successes:
  assumes "inv s" and "\<And>s x u. inv s \<Longrightarrow> fst (step x s) = Inr u \<Longrightarrow> Q x"
  shows "list_all Q (fst (cell_run step xs s))"
  using assms(1)
proof (induction xs arbitrary: s)
  case (Cons x xs)
  obtain r s' where step: "step x s = (r, s')" by (cases "step x s")
  have "inv s'" using inv_step[OF Cons.prems, of x] step by simp
  then show ?case
    using Cons.IH[of s'] step assms(2)[OF Cons.prems, of x] by (cases r) (auto simp: split_def)
qed simp

lemma last_success_wins:
  assumes "inv s" and "\<And>x v. upd x v = img x"
  shows "view (snd (cell_run step xs s))
           = (case fst (cell_run step xs s) of [] \<Rightarrow> view s | ys \<Rightarrow> img (last ys))"
proof -
  have "fold upd ys v = (case ys of [] \<Rightarrow> v | zs \<Rightarrow> img (last zs))" for ys v
    by (induction ys arbitrary: v) (auto simp: assms(2) split: list.splits)
  then show ?thesis using run_refines_register[OF assms(1)] by simp
qed

end

text \<open>The replacement of one file by another's rename, shared by the interpretations.\<close>

definition replaces :: "path \<Rightarrow> bytes \<Rightarrow> fs \<Rightarrow> ('e + unit) \<times> fs \<Rightarrow> bool" where
  "replaces p bs s r \<longleftrightarrow>
     (\<exists>u. fst r = Inr u \<and> file_content p (snd r) = Some bs)
   \<or> (\<exists>e. fst r = Inl e \<and> file_content p (snd r) = file_content p s)"

lemma replaces_ok: "replaces p bs s r \<Longrightarrow> fst r = Inr u \<Longrightarrow> file_content p (snd r) = Some bs"
  by (auto simp: replaces_def)

lemma replaces_err: "replaces p bs s r \<Longrightarrow> fst r = Inl e \<Longrightarrow> file_content p (snd r) = file_content p s"
  by (auto simp: replaces_def)

lemma replaces_before:
  assumes "files (snd (m s)) p = files s p" and "\<And>a s'. m s = (Inr a, s') \<Longrightarrow> replaces p bs s' (f a s')"
  shows "replaces p bs s (try_bind m f s)"
  using assms by (cases "m s"; cases "fst (m s)") (auto simp: replaces_def)

lemma replaces_rename:
  assumes "tmp \<noteq> p" and "file_content tmp s = Some bs"
  shows "replaces p bs s (fs_rename io tmp p s)"
proof (cases "fs_rename io tmp p s")
  case (Pair r s')
  from fs_rename_cases[OF assms(1) this] assms(2) Pair show ?thesis
    by (auto simp: replaces_def)
qed

lemma replaces_write:
  assumes "tmp \<noteq> p" and "\<And>s'. s' = put_file tmp bs s \<Longrightarrow> replaces p bs s' (f () s')"
  shows "replaces p bs s (try_bind (fs_write io tmp bs) f s)"
proof (rule replaces_before)
  show "files (snd (fs_write io tmp bs s)) p = files s p"
    using assms(1) by (simp add: fs_write_frame)
qed (use assms(2) in \<open>auto dest: fs_write_Inr\<close>)

end
