(* ===== verification/Json.thy ===== *)
theory Json
  imports External Complex_Main
begin

text \<open>
  JSON as the crate meets it. A document is a tree with its object members in text order; printing
  and parsing the text is \<open>serde_json\<close>'s and stays a parameter (\<open>json_text\<close>). What the
  crate's own \<open>derive(Serialize, Deserialize)\<close> attributes say about members, defaults and types
  is written out here, as operations on trees: members the struct does not name are ignored, a
  repeated one is an error, a missing one is an error unless it has a default, and an array gives
  the members by position.
\<close>

datatype json =
    JNull | JBool bool | JInt int | JFloat rat | JStr string | JArr "json list"
  | JObj "(string \<times> json) list"

record json_text =
  json_print :: "json \<Rightarrow> bytes"
  json_parse :: "bytes \<Rightarrow> json option"

text \<open>The documented behaviour the round trips rely on, for one document: it parses as it was printed.\<close>

definition json_reads_back :: "json_text \<Rightarrow> json \<Rightarrow> bool" where
  "json_reads_back T v \<longleftrightarrow> json_parse T (json_print T v) = Some v"

text \<open>A text format for a given table of documents, used to show that the hypothesis can hold.\<close>

definition table_text :: "json list \<Rightarrow> json_text" where
  "table_text vs =
     \<lparr>json_print = (\<lambda>v. [word_of_nat (length (takeWhile (\<lambda>w. w \<noteq> v) vs))]),
      json_parse = (\<lambda>bs. case bs of [b] \<Rightarrow> nth_opt vs (unat b) | _ \<Rightarrow> None)\<rparr>"

lemma table_text_reads_back:
  assumes "v \<in> set vs" and "length vs \<le> 256"
  shows "json_reads_back (table_text vs) v"
proof -
  let ?i = "length (takeWhile (\<lambda>w. w \<noteq> v) vs)"
  have "?i < length vs" using assms(1)
    by (metis (mono_tags, lifting) length_takeWhile_le le_neq_implies_less set_takeWhileD takeWhile_eq_take take_all_iff order_refl)
  moreover from this have "vs ! ?i = v" using nth_length_takeWhile by fastforce
  ultimately show ?thesis
    using assms(2) by (simp add: json_reads_back_def table_text_def nth_opt_def unat_of_nat)
qed

section \<open>Derived deserialization\<close>

definition struct_fields :: "string list \<Rightarrow> json \<Rightarrow> (string \<Rightarrow> json option) option" where
  "struct_fields names v =
     (case v of
        JObj kvs \<Rightarrow> if distinct (filter (\<lambda>k. k \<in> set names) (map fst kvs)) then Some (map_of kvs) else None
      | JArr vs \<Rightarrow> if length vs \<le> length names then Some (map_of (zip names vs)) else None
      | _ \<Rightarrow> None)"

definition required :: "(json \<Rightarrow> 'a option) \<Rightarrow> (string \<Rightarrow> json option) \<Rightarrow> string \<Rightarrow> 'a option" where
  "required f m k = Option.bind (m k) f"

definition defaulted :: "'a \<Rightarrow> (json \<Rightarrow> 'a option) \<Rightarrow> (string \<Rightarrow> json option) \<Rightarrow> string \<Rightarrow> 'a option" where
  "defaulted d f m k = (case m k of None \<Rightarrow> Some d | Some v \<Rightarrow> f v)"

fun de_string :: "json \<Rightarrow> string option" where
  "de_string (JStr s) = Some s"
| "de_string _ = None"

fun de_bool :: "json \<Rightarrow> bool option" where
  "de_bool (JBool b) = Some b"
| "de_bool _ = None"

fun de_u32 :: "json \<Rightarrow> u32 option" where
  "de_u32 (JInt n) = (if 0 \<le> n \<and> n < 2 ^ 32 then Some (word_of_int n) else None)"
| "de_u32 _ = None"

definition ser_u32 :: "u32 \<Rightarrow> json" where
  "ser_u32 w = JInt (uint w)"

lemma de_ser_u32 [simp]: "de_u32 (ser_u32 w) = Some w"
  using uint_bounded[of w] by (simp add: ser_u32_def)

lemma struct_fields_obj:
  "distinct (map fst kvs) \<Longrightarrow> struct_fields names (JObj kvs) = Some (map_of kvs)"
  by (simp add: struct_fields_def distinct_filter)

lemmas de_field_simps = required_def defaulted_def

section \<open>\<open>serde_json::Value\<close> accessors\<close>

text \<open>A repeated member of a \<open>Value\<close> keeps its last value.\<close>

fun value_get :: "string \<Rightarrow> json \<Rightarrow> json option" where
  "value_get k (JObj kvs) = map_of (rev kvs) k"
| "value_get k _ = None"

fun as_i64 :: "json \<Rightarrow> int option" where
  "as_i64 (JInt n) = (if i64_min \<le> n \<and> n \<le> i64_max then Some n else None)"
| "as_i64 _ = None"

fun as_str :: "json \<Rightarrow> string option" where
  "as_str (JStr s) = Some s"
| "as_str _ = None"

end
