(* ===== verification/PayloadDek.thy ===== *)
theory PayloadDek
  imports External
begin

text \<open>
  \<open>src/payload_dek.rs\<close>: source-side payload encryption. A \<open>dek_handle\<close> is what the
  control plane issued, \<open>from_proto\<close> decides which issued bytes become one, and
  \<open>dek_encrypt\<close> seals a payload as \<open>nonce || ciphertext || tag\<close>. A panic (the operating
  system has no randomness) is the value \<open>None\<close>; the cipher and the randomness are parameters.
\<close>

section \<open>Data and operations\<close>

definition DEK_AAD :: bytes where
  "DEK_AAD = string_to_bytes ''mcpg-payload-source-v1''"

record dek_handle =
  dh_raw :: bytes
  dh_version :: u32

datatype dek_error = BadKeyLen nat | ZeroVersion | EncryptError string

definition from_proto :: "bytes \<Rightarrow> u32 \<Rightarrow> dek_error + dek_handle option" where
  "from_proto raw version =
     (if raw = [] then Inr None
      else if length raw \<noteq> 32 then Inl (BadKeyLen (length raw))
      else if version = 0 then Inl ZeroVersion
      else Inr (Some \<lparr>dh_raw = raw, dh_version = version\<rparr>))"

definition dek_encrypt :: "crypto \<Rightarrow> rng \<Rightarrow> dek_handle \<Rightarrow> bytes \<Rightarrow> (dek_error + bytes) option" where
  "dek_encrypt C rng self plaintext =
     (if length (dh_raw self) \<noteq> 32 then Some (Inl (EncryptError (invalid_length C)))
      else case rng 12 of
             None \<Rightarrow> None
           | Some nonce_bytes \<Rightarrow>
               Some (case gcm_encrypt C (dh_raw self) nonce_bytes DEK_AAD plaintext of
                       None \<Rightarrow> Inl (EncryptError (aead_error C))
                     | Some ct \<Rightarrow> Inr (nonce_bytes @ ct)))"

text \<open>\<open>split_first_chunk::<N>\<close>\<close>

definition split_first_chunk :: "nat \<Rightarrow> 'a list \<Rightarrow> ('a list \<times> 'a list) option" where
  "split_first_chunk n xs = (if n \<le> length xs then Some (take n xs, drop n xs) else None)"

definition decrypt_for_test :: "crypto \<Rightarrow> dek_handle \<Rightarrow> bytes \<Rightarrow> dek_error + bytes" where
  "decrypt_for_test C self blob =
     (case split_first_chunk 12 blob of
        None \<Rightarrow> Inl (EncryptError ''blob shorter than nonce'')
      | Some (nonce_bytes, ct) \<Rightarrow>
          (if length (dh_raw self) \<noteq> 32 then Inl (EncryptError (invalid_length C))
           else case gcm_decrypt C (dh_raw self) nonce_bytes DEK_AAD ct of
                  None \<Rightarrow> Inl (EncryptError (aead_error C))
                | Some m \<Rightarrow> Inr m))"

section \<open>Well-formed handles\<close>

text \<open>What the type \<open>[u8; 32]\<close> and the version check give every handle in circulation.\<close>

definition dek_ok :: "dek_handle \<Rightarrow> bool" where
  "dek_ok h \<longleftrightarrow> length (dh_raw h) = 32 \<and> dh_version h \<noteq> 0"

lemma split_first_chunk_append [simp]:
  "length a = n \<Longrightarrow> split_first_chunk n (a @ b) = Some (a, b)"
  by (auto simp: split_first_chunk_def)

lemma split_first_chunk_None [simp]: "split_first_chunk n xs = None \<longleftrightarrow> length xs < n"
  by (auto simp: split_first_chunk_def)

lemma from_proto_Some_iff:
  "from_proto raw v = Inr (Some h) \<longleftrightarrow> length raw = 32 \<and> v \<noteq> 0 \<and> h = \<lparr>dh_raw = raw, dh_version = v\<rparr>"
  by (auto simp: from_proto_def)

lemma from_proto_ok: "from_proto raw v = Inr (Some h) \<Longrightarrow> dek_ok h"
  by (simp add: from_proto_Some_iff dek_ok_def)

lemma rng_worksD: "rng_works r \<Longrightarrow> \<exists>bs. r n = Some bs \<and> length bs = n"
  by (simp add: rng_works_def)

section \<open>Properties\<close>

text \<open>
  Issued key bytes become a handle exactly when they are 32 bytes with a non-zero version, and
  the handle carries both unchanged; empty bytes mean no source-side encryption; every other input
  is rejected with the error that names its defect, the length being checked first.
\<close>

theorem from_proto_classifies:
  "(\<exists>h. from_proto raw version = Inr (Some h) \<and> dh_raw h = raw \<and> dh_version h = version \<and> dek_ok h
        \<and> length raw = 32 \<and> version \<noteq> 0)
   \<or> (from_proto raw version = Inr None \<and> raw = [])
   \<or> (from_proto raw version = Inl (BadKeyLen (length raw)) \<and> raw \<noteq> [] \<and> length raw \<noteq> 32)
   \<or> (from_proto raw version = Inl ZeroVersion \<and> length raw = 32 \<and> version = 0)"
  by (auto simp: from_proto_def dek_ok_def)

text \<open>
  C31. With a cipher that decrypts what it encrypts and keeps the GCM framing, a payload sealed
  under an issued key is never refused or lost: encryption returns a blob 28 bytes longer than the
  payload that opens with the key to exactly the payload, for every payload below the GCM limit.
\<close>

theorem payload_seals_and_opens:
  assumes cipher: "gcm_roundtrip C" "gcm_length C" "gcm_accepts C" and random: "rng_works rng"
    and issued: "from_proto raw version = Inr (Some h)" and size: "length plaintext < 2 ^ 36"
  shows "\<exists>blob. dek_encrypt C rng h plaintext = Some (Inr blob)
           \<and> length blob = length plaintext + 28
           \<and> decrypt_for_test C h blob = Inr plaintext"
proof -
  obtain n where n: "rng 12 = Some n" "length n = 12"
    using rng_worksD[OF random] by blast
  have h: "length (dh_raw h) = 32" using from_proto_ok[OF issued] by (simp add: dek_ok_def)
  with n size cipher(3) obtain ct where ct: "gcm_encrypt C (dh_raw h) n DEK_AAD plaintext = Some ct"
    unfolding gcm_accepts_def by (metis option.exhaust)
  from cipher(1,2) ct have "gcm_decrypt C (dh_raw h) n DEK_AAD ct = Some plaintext"
      "length ct = length plaintext + 16"
    unfolding gcm_roundtrip_def gcm_length_def by blast+
  with h n ct show ?thesis
    by (simp add: dek_encrypt_def decrypt_for_test_def)
qed

theorem payload_seals_and_opens_witness:
  "\<exists>blob. dek_encrypt demo_crypto demo_rng \<lparr>dh_raw = replicate 32 9, dh_version = 3\<rparr> [1, 2, 3] = Some (Inr blob)
     \<and> length blob = 31
     \<and> decrypt_for_test demo_crypto \<lparr>dh_raw = replicate 32 9, dh_version = 3\<rparr> blob = Inr [1, 2, 3]"
  using payload_seals_and_opens[OF demo_parameters_ok(1-3,6),
      of "replicate 32 9" 3 "\<lparr>dh_raw = replicate 32 9, dh_version = 3\<rparr>" "[1, 2, 3]"]
  by (simp add: from_proto_def)

end
