(* ===== verification/Lkg.thy ===== *)
theory Lkg
  imports FileSys Json PayloadDek
begin

text \<open>
  \<open>src/lkg.rs\<close>: the last-known-good configuration cache. \<open>lkg_save\<close> seals the bundle
  under a key derived from the node's secret and replaces \<open>lkg-config.bin\<close>; \<open>lkg_load\<close>
  and \<open>load_bundle\<close> read it back. The protobuf codec of \<open>ConfigBundle\<close> (a type variable),
  JSON text, base64, the timestamp format, the cipher, HKDF and the randomness are parameters.
\<close>

section \<open>Data\<close>

definition FILE_VERSION :: u8 where "FILE_VERSION = 1"
definition NONCE_LEN :: nat where "NONCE_LEN = 12"
definition HKDF_SALT :: bytes where "HKDF_SALT = string_to_bytes ''mcpg-lkg-cache-v1''"
definition HKDF_INFO :: bytes where "HKDF_INFO = string_to_bytes ''aes-256-gcm:lkg-bundle''"
definition NODE_SECRET_FILE :: string where "NODE_SECRET_FILE = ''.node-secret''"
definition NODE_SECRET_LEN :: nat where "NODE_SECRET_LEN = 32"

record lkg_entry =
  lkg_config_hash :: string
  bundle_proto :: bytes
  written_at :: datetime

record lkg_cache =
  lkg_path :: path
  lkg_state_dir :: path

datatype lkg_error =
    LkgIo io_error | LkgEmpty | LkgVersion u8 | LkgTruncated | LkgHkdf | LkgEncrypt | LkgDecrypt
  | LkgJson | LkgProto | LkgPanic

text \<open>The packages the cache uses.\<close>

record 'b lkg_packages =
  pb_encode :: "'b \<Rightarrow> bytes"
  pb_decode :: "bytes \<Rightarrow> 'b option"
  dt_print :: "datetime \<Rightarrow> string"
  dt_parse :: "string \<Rightarrow> datetime option"
  lk_text :: json_text
  lk_b64 :: base64
  lk_crypto :: crypto

section \<open>The envelope\<close>

text \<open>\<open>mod base64_bytes\<close>\<close>

definition base64_bytes_serialize :: "base64 \<Rightarrow> bytes \<Rightarrow> json" where
  "base64_bytes_serialize B v = JStr (b64_encode B v)"

definition base64_bytes_deserialize :: "base64 \<Rightarrow> json \<Rightarrow> bytes option" where
  "base64_bytes_deserialize B v = Option.bind (de_string v) (b64_decode B)"

definition lkg_to_json :: "'b lkg_packages \<Rightarrow> lkg_entry \<Rightarrow> json" where
  "lkg_to_json P e =
     JObj [(''config_hash'', JStr (lkg_config_hash e)),
           (''bundle_proto'', base64_bytes_serialize (lk_b64 P) (bundle_proto e)),
           (''written_at'', JStr (dt_print P (written_at e)))]"

definition lkg_of_json :: "'b lkg_packages \<Rightarrow> json \<Rightarrow> lkg_entry option" where
  "lkg_of_json P v =
     Option.bind (struct_fields [''config_hash'', ''bundle_proto'', ''written_at''] v) (\<lambda>m.
     Option.bind (required de_string m ''config_hash'') (\<lambda>h.
     Option.bind (required (base64_bytes_deserialize (lk_b64 P)) m ''bundle_proto'') (\<lambda>b.
     Option.bind (required (\<lambda>w. Option.bind (de_string w) (dt_parse P)) m ''written_at'') (\<lambda>t.
     Some \<lparr>lkg_config_hash = h, bundle_proto = b, written_at = t\<rparr>))))"

section \<open>The node secret and the key\<close>

definition machine_id_path :: path where
  "machine_id_path = [''/'', ''etc'', ''machine-id'']"

definition secret_path :: "path \<Rightarrow> path" where
  "secret_path state_dir = join state_dir NODE_SECRET_FILE"

definition machine_secret :: "io \<Rightarrow> fs \<Rightarrow> bytes option" where
  "machine_secret io s =
     (case fst (read_to_string io machine_id_path s) of
        Inl _ \<Rightarrow> None
      | Inr text \<Rightarrow> (let t = trim text in if t \<noteq> [] then Some (string_to_bytes t) else None))"

definition generate_secret :: "io \<Rightarrow> rng \<Rightarrow> path \<Rightarrow> (fs, lkg_error, bytes) action" where
  "generate_secret io rng state_dir =
     try_bind (map_err LkgIo (create_dir_all io state_dir)) (\<lambda>_ s.
       case rng NODE_SECRET_LEN of
         None \<Rightarrow> (Inl LkgPanic, s)
       | Some bytes \<Rightarrow>
           try_bind (map_err LkgIo (fs_write io (secret_path state_dir) bytes)) (\<lambda>_.
           try_bind (map_err LkgIo (fs_chmod io (secret_path state_dir) mode_600)) (\<lambda>_ s.
           (Inr bytes, s))) s)"

definition node_secret :: "io \<Rightarrow> rng \<Rightarrow> path \<Rightarrow> (fs, lkg_error, bytes) action" where
  "node_secret io rng state_dir s =
     (case machine_secret io s of
        Some k \<Rightarrow> (Inr k, s)
      | None \<Rightarrow>
          (if path_exists io (secret_path state_dir) s
           then try_bind (map_err LkgIo (fs_read io (secret_path state_dir))) (\<lambda>bytes.
                  if length bytes = NODE_SECRET_LEN then (\<lambda>s. (Inr bytes, s))
                  else generate_secret io rng state_dir) s
           else generate_secret io rng state_dir s))"

definition derive_key :: "crypto \<Rightarrow> io \<Rightarrow> rng \<Rightarrow> path \<Rightarrow> (fs, lkg_error, bytes) action" where
  "derive_key C io rng state_dir =
     try_bind (node_secret io rng state_dir) (\<lambda>secret s.
       (ok_or LkgHkdf (hkdf_sha256 C HKDF_SALT secret HKDF_INFO 32), s))"

section \<open>Sealing and opening\<close>

definition lkg_encrypt :: "crypto \<Rightarrow> io \<Rightarrow> rng \<Rightarrow> bytes \<Rightarrow> path \<Rightarrow> (fs, lkg_error, bytes) action" where
  "lkg_encrypt C io rng plaintext state_dir =
     try_bind (derive_key C io rng state_dir) (\<lambda>key s.
       case rng NONCE_LEN of
         None \<Rightarrow> (Inl LkgPanic, s)
       | Some nonce_bytes \<Rightarrow>
           (case gcm_encrypt C key nonce_bytes [] plaintext of
              None \<Rightarrow> (Inl LkgEncrypt, s)
            | Some ct \<Rightarrow> (Inr ([FILE_VERSION] @ nonce_bytes @ ct), s)))"

definition lkg_decrypt :: "crypto \<Rightarrow> io \<Rightarrow> rng \<Rightarrow> bytes \<Rightarrow> path \<Rightarrow> (fs, lkg_error, bytes) action" where
  "lkg_decrypt C io rng sealed state_dir =
     (case sealed of
        [] \<Rightarrow> (\<lambda>s. (Inl LkgEmpty, s))
      | ver # rest \<Rightarrow>
          (if ver \<noteq> FILE_VERSION then (\<lambda>s. (Inl (LkgVersion ver), s))
           else case split_first_chunk NONCE_LEN rest of
                  None \<Rightarrow> (\<lambda>s. (Inl LkgTruncated, s))
                | Some (nonce_bytes, ct) \<Rightarrow>
                    try_bind (derive_key C io rng state_dir) (\<lambda>key s.
                      (ok_or LkgDecrypt (gcm_decrypt C key nonce_bytes [] ct), s))))"

section \<open>The cache\<close>

definition lkg_new :: "path \<Rightarrow> lkg_cache" where
  "lkg_new p = \<lparr>lkg_path = p, lkg_state_dir = (case parent p of None \<Rightarrow> [''.''] | Some d \<Rightarrow> d)\<rparr>"

definition in_state_dir :: "path \<Rightarrow> lkg_cache" where
  "in_state_dir state_dir = \<lparr>lkg_path = join state_dir ''lkg-config.bin'', lkg_state_dir = state_dir\<rparr>"

definition lkg_load :: "'b lkg_packages \<Rightarrow> io \<Rightarrow> rng \<Rightarrow> lkg_cache \<Rightarrow> (fs, lkg_error, lkg_entry option) action" where
  "lkg_load P io rng self s =
     (if \<not> path_exists io (lkg_path self) s then (Inr None, s)
      else try_bind (map_err LkgIo (fs_read io (lkg_path self))) (\<lambda>bytes.
           try_bind (lkg_decrypt (lk_crypto P) io rng bytes (lkg_state_dir self)) (\<lambda>plain s.
             (case Option.bind (json_parse (lk_text P) plain) (lkg_of_json P) of
                None \<Rightarrow> (Inl LkgJson, s)
              | Some entry \<Rightarrow> (Inr (Some entry), s)))) s)"

definition load_bundle :: "'b lkg_packages \<Rightarrow> io \<Rightarrow> rng \<Rightarrow> lkg_cache \<Rightarrow> (fs, lkg_error, (string \<times> 'b) option) action" where
  "load_bundle P io rng self =
     try_bind (lkg_load P io rng self) (\<lambda>found s.
       case found of
         None \<Rightarrow> (Inr None, s)
       | Some entry \<Rightarrow>
           (case pb_decode P (bundle_proto entry) of
              None \<Rightarrow> (Inl LkgProto, s)
            | Some bundle \<Rightarrow> (Inr (Some (lkg_config_hash entry, bundle)), s)))"

definition lkg_save :: "'b lkg_packages \<Rightarrow> io \<Rightarrow> rng \<Rightarrow> datetime \<Rightarrow> lkg_cache \<Rightarrow> string \<Rightarrow> 'b \<Rightarrow> (fs, lkg_error, unit) action" where
  "lkg_save P io rng now self hash bundle =
     try_bind (case parent (lkg_path self) of
                 None \<Rightarrow> (\<lambda>s. (Inr (), s))
               | Some d \<Rightarrow> map_err LkgIo (create_dir_all io d)) (\<lambda>_.
       let entry = \<lparr>lkg_config_hash = hash, bundle_proto = pb_encode P bundle, written_at = now\<rparr>;
           json = json_print (lk_text P) (lkg_to_json P entry)
       in try_bind (lkg_encrypt (lk_crypto P) io rng json (lkg_state_dir self)) (\<lambda>sealed.
            let tmp = with_extension (lkg_path self) ''bin.tmp''
            in try_bind (map_err LkgIo (fs_write io tmp sealed)) (\<lambda>_.
               try_bind (map_err LkgIo (fs_rename io tmp (lkg_path self))) (\<lambda>_ s.
               (Inr (), snd (fs_chmod io (lkg_path self) mode_600 s))))))"

section \<open>A settled node secret\<close>

definition secret_settled :: "path \<Rightarrow> bytes \<Rightarrow> fs \<Rightarrow> bool" where
  "secret_settled dir k s \<longleftrightarrow>
     machine_secret all_works s = Some k
   \<or> machine_secret all_works s = None \<and> length k = 32 \<and> file_content (secret_path dir) s = Some k"

lemma secret_path_differs: "secret_path dir \<noteq> machine_id_path"
proof
  assume "secret_path dir = machine_id_path"
  then have "last (secret_path dir) = last machine_id_path" by simp
  then show False by (simp add: secret_path_def machine_id_path_def NODE_SECRET_FILE_def join_def)
qed

lemma machine_secret_content:
  assumes "io (OpRead machine_id_path) = Works"
  shows "machine_secret io s =
    (case file_content machine_id_path s of
       None \<Rightarrow> None
     | Some bs \<Rightarrow> if utf8_ok bs \<and> trim (bytes_to_string bs) \<noteq> []
                  then Some (string_to_bytes (trim (bytes_to_string bs))) else None)"
  using assms by (auto simp: machine_secret_def read_to_string_def try_bind_def fs_read_def Let_def
      split: option.splits)

lemma secret_settled_frame:
  assumes "file_content machine_id_path s' = file_content machine_id_path s"
    and "file_content (secret_path dir) s' = file_content (secret_path dir) s"
  shows "secret_settled dir k s' = secret_settled dir k s"
  using assms by (simp add: secret_settled_def machine_secret_content)

lemma node_secret_settled:
  assumes "secret_settled dir k s"
  shows "node_secret (reads_work io) rng dir s = (Inr k, s)"
  using assms
  by (auto simp: secret_settled_def node_secret_def machine_secret_content fs_read_def NODE_SECRET_LEN_def
      map_err_def try_bind_def)

lemma generate_secret_settles:
  assumes "generate_secret io rng dir s = (Inr k, s')" and "machine_secret all_works s = None"
    and "rng_works rng"
  shows "secret_settled dir k s'"
proof -
  from assms(1,3) obtain s1 s2 where
      mk: "create_dir_all io dir s = (Inr (), s1)"
    and rnd: "rng 32 = Some k" and w: "fs_write io (secret_path dir) k s1 = (Inr (), s2)"
    and ch: "fs_chmod io (secret_path dir) mode_600 s2 = (Inr (), s')"
    by (auto simp: generate_secret_def try_bind_Inr_iff map_err_Inr_iff NODE_SECRET_LEN_def
        split: option.splits)
  have "file_content (secret_path dir) s' = Some k"
    using fs_write_Inr[OF w] fs_chmod_Inr[OF ch] by auto
  moreover have "files s' machine_id_path = files s machine_id_path"
    using fs_write_Inr[OF w] fs_chmod_Inr[OF ch] secret_path_differs[of dir]
      create_dir_all_files[of io dir s] mk by auto
  moreover have "length k = 32" using assms(3) rnd unfolding rng_works_def by (metis option.inject)
  ultimately show ?thesis using assms(2) by (simp add: secret_settled_def machine_secret_content)
qed

lemma node_secret_settles:
  assumes "node_secret (reads_work io) rng dir s = (Inr k, s')" and "rng_works rng"
  shows "secret_settled dir k s'"
proof (cases "machine_secret all_works s")
  case (Some k')
  with assms(1) show ?thesis by (auto simp: node_secret_def machine_secret_content secret_settled_def)
next
  case None
  then have m: "machine_secret (reads_work io) s = None" by (simp add: machine_secret_content)
  show ?thesis
  proof (cases "file_content (secret_path dir) s = Some k \<and> length k = 32")
    case True
    with assms None m show ?thesis
      by (auto simp: node_secret_def secret_settled_def map_err_def try_bind_def fs_read_def
          NODE_SECRET_LEN_def split: if_splits)
  next
    case False
    with assms(1) m have "generate_secret (reads_work io) rng dir s = (Inr k, s')"
      by (auto simp: node_secret_def map_err_def try_bind_def fs_read_def NODE_SECRET_LEN_def
          split: if_splits option.splits)
    then show ?thesis by (rule generate_secret_settles[OF _ None assms(2)])
  qed
qed

section \<open>The cache file is an atomic cell\<close>

text \<open>What a save under the secret \<open>k\<close> puts into the file.\<close>

definition lkg_image :: "'b lkg_packages \<Rightarrow> bytes \<Rightarrow> rng \<Rightarrow> datetime \<Rightarrow> string \<Rightarrow> 'b \<Rightarrow> bytes option" where
  "lkg_image P k rng now hash bundle =
     Option.bind (hkdf_sha256 (lk_crypto P) HKDF_SALT k HKDF_INFO 32) (\<lambda>key.
     Option.bind (rng NONCE_LEN) (\<lambda>nonce.
     map_option (\<lambda>ct. FILE_VERSION # nonce @ ct)
       (gcm_encrypt (lk_crypto P) key nonce []
          (json_print (lk_text P) (lkg_to_json P
             \<lparr>lkg_config_hash = hash, bundle_proto = pb_encode P bundle, written_at = now\<rparr>)))))"

lemma lkg_tmp_path: "with_extension (lkg_path (in_state_dir dir)) ''bin.tmp'' = join dir ''lkg-config.bin.tmp''"
  by (simp add: in_state_dir_def join_def with_extension_def file_stem_def)

lemma lkg_paths_differ:
  "join dir ''lkg-config.bin.tmp'' \<noteq> join dir ''lkg-config.bin''"
  "join dir ''lkg-config.bin.tmp'' \<noteq> secret_path dir" "join dir ''lkg-config.bin'' \<noteq> secret_path dir"
  by (simp_all add: join_def secret_path_def NODE_SECRET_FILE_def)

lemma lkg_not_machine_id:
  "f \<noteq> ''machine-id'' \<Longrightarrow> join dir f \<noteq> machine_id_path"
proof
  assume "f \<noteq> ''machine-id''" and "join dir f = machine_id_path"
  then have "last (join dir f) = last machine_id_path" by simp
  with \<open>f \<noteq> ''machine-id''\<close> show False by (simp add: machine_id_path_def join_def)
qed

lemma lkg_encrypt_settled:
  assumes "secret_settled dir k s"
  shows "snd (lkg_encrypt (lk_crypto P) (reads_work io) rng pt dir s) = s"
    and "fst (lkg_encrypt (lk_crypto P) (reads_work io) rng
                (json_print (lk_text P) (lkg_to_json P
                   \<lparr>lkg_config_hash = hash, bundle_proto = pb_encode P bundle, written_at = now\<rparr>)) dir s)
             = Inr sealed
           \<Longrightarrow> lkg_image P k rng now hash bundle = Some sealed"
  using node_secret_settled[OF assms, of io rng]
  by (auto simp: lkg_encrypt_def derive_key_def try_bind_def ok_or_def lkg_image_def
      split: option.splits)

lemma fs_rename_frame: "q \<noteq> a \<Longrightarrow> q \<noteq> b \<Longrightarrow> files (snd (fs_rename io a b s)) q = files s q"
  by (simp add: fs_rename_def split: option.splits)

text \<open>The write, rename and mode change at the end of a save.\<close>

definition lkg_publish :: "io \<Rightarrow> path \<Rightarrow> bytes \<Rightarrow> (fs, lkg_error, unit) action" where
  "lkg_publish io dir sealed =
     try_bind (map_err LkgIo (fs_write io (join dir ''lkg-config.bin.tmp'') sealed)) (\<lambda>_.
     try_bind (map_err LkgIo (fs_rename io (join dir ''lkg-config.bin.tmp'') (join dir ''lkg-config.bin''))) (\<lambda>_ s.
     (Inr (), snd (fs_chmod io (join dir ''lkg-config.bin'') mode_600 s))))"

lemma lkg_publish_replaces: "replaces (join dir ''lkg-config.bin'') sealed s (lkg_publish io dir sealed s)"
proof -
  let ?tmp = "join dir ''lkg-config.bin.tmp''" and ?p = "join dir ''lkg-config.bin''"
  have tail: "replaces ?p sealed s' (try_bind (map_err LkgIo (fs_rename io ?tmp ?p)) (\<lambda>_ s.
      (Inr (), snd (fs_chmod io ?p mode_600 s))) s')" if "file_content ?tmp s' = Some sealed" for s'
    using replaces_rename[OF lkg_paths_differ(1) that, of io]
    by (cases "fs_rename io ?tmp ?p s'"; cases "fst (fs_rename io ?tmp ?p s')")
      (auto simp: replaces_def fs_chmod_content[simplified])
  show ?thesis
    unfolding lkg_publish_def
  proof (rule replaces_before)
    show "files (snd (map_err LkgIo (fs_write io ?tmp sealed) s)) ?p = files s ?p"
      using lkg_paths_differ(1)[of dir] by (simp add: fs_write_frame)
  qed (auto simp: map_err_Inr_iff dest!: fs_write_Inr intro!: tail)
qed

lemma lkg_publish_frame:
  assumes "q \<noteq> join dir ''lkg-config.bin.tmp''" and "q \<noteq> join dir ''lkg-config.bin''"
  shows "files (snd (lkg_publish io dir sealed s)) q = files s q"
  unfolding lkg_publish_def
  by (intro try_bind_keeps[where P = "\<lambda>s. files s q"])
    (simp_all add: assms fs_write_frame fs_rename_frame fs_chmod_frame)

lemma lkg_publish_dirs [simp]: "dirs (snd (lkg_publish io dir sealed s)) = dirs s"
  unfolding lkg_publish_def by (intro try_bind_keeps[where P = dirs]) simp_all

lemma lkg_save_steps:
  "lkg_save P (reads_work io) rng now (in_state_dir dir) hash bundle s =
    try_bind (map_err LkgIo (create_dir_all (reads_work io) dir)) (\<lambda>_ s1.
      try_bind (lkg_encrypt (lk_crypto P) (reads_work io) rng
          (json_print (lk_text P) (lkg_to_json P
             \<lparr>lkg_config_hash = hash, bundle_proto = pb_encode P bundle, written_at = now\<rparr>)) dir)
        (lkg_publish (reads_work io) dir) s1) s"
  using lkg_tmp_path[of dir]
  by (simp add: lkg_save_def in_state_dir_def parent_def join_def lkg_publish_def[abs_def] Let_def)

lemma create_dir_all_is_dir:
  "is_dir p (snd (create_dir_all io d s)) \<Longrightarrow> is_dir p s \<or> prefix p d"
  by (auto simp: create_dir_all_def is_dir_def split: if_splits io_outcome.splits option.splits
      dest: in_set_takeD)

definition lkg_inv :: "path \<Rightarrow> bytes \<Rightarrow> fs \<Rightarrow> bool" where
  "lkg_inv dir k s \<longleftrightarrow> secret_settled dir k s \<and> \<not> is_dir (join dir ''lkg-config.bin'') s"

lemma lkg_save_effect:
  fixes P :: "'b lkg_packages"
    and io :: io and rng :: rng and now :: datetime and hash :: string and bdl :: 'b
  assumes inv: "lkg_inv dir k s"
  defines "r \<equiv> lkg_save P (reads_work io) rng now (in_state_dir dir) hash bdl s"
  shows "lkg_inv dir k (snd r)"
    and "fst r = Inr u \<Longrightarrow> file_content (join dir ''lkg-config.bin'') (snd r) = lkg_image P k rng now hash bdl
           \<and> lkg_image P k rng now hash bdl \<noteq> None"
    and "fst r = Inl e \<Longrightarrow> file_content (join dir ''lkg-config.bin'') (snd r) = file_content (join dir ''lkg-config.bin'') s"
proof -
  let ?p = "join dir ''lkg-config.bin''"
  let ?mk = "create_dir_all (reads_work io) dir s"
  let ?js = "json_print (lk_text P) (lkg_to_json P
             \<lparr>lkg_config_hash = hash, bundle_proto = pb_encode P bdl, written_at = now\<rparr>)"
  let ?enc = "lkg_encrypt (lk_crypto P) (reads_work io) rng ?js dir"
  obtain mk s1 where mk: "?mk = (mk, s1)" by (cases ?mk)
  have f1: "files s1 = files s" using create_dir_all_files[of "reads_work io" dir s] mk by simp
  then have settled1: "secret_settled dir k s1"
    using inv secret_settled_frame[of s1 s] by (simp add: lkg_inv_def)
  have nodir1: "\<not> is_dir ?p s1"
    using inv create_dir_all_is_dir[of ?p "reads_work io" dir s] mk
    by (auto simp: lkg_inv_def join_def dest: prefix_length_le)
  note enc = lkg_encrypt_settled[OF settled1, of P io rng]
  obtain en where en: "?enc s1 = (en, s1)" using enc(1)[of ?js] by (cases "?enc s1") auto
  have r: "r = (case mk of Inl e \<Rightarrow> (Inl (LkgIo e), s1)
      | Inr _ \<Rightarrow> (case en of Inl e \<Rightarrow> (Inl e, s1) | Inr sealed \<Rightarrow> lkg_publish (reads_work io) dir sealed s1))"
    unfolding r_def lkg_save_steps by (simp add: try_bind_def map_err_def mk en split: sum.splits)
  have frame: "secret_settled dir k (snd (lkg_publish (reads_work io) dir sealed s1))" for sealed
    using settled1 lkg_publish_frame[of machine_id_path dir "reads_work io" sealed s1]
      lkg_publish_frame[of "secret_path dir" dir "reads_work io" sealed s1]
      lkg_not_machine_id[of _ dir] lkg_paths_differ[of dir] 
    by (simp add: secret_settled_frame[of "snd (lkg_publish (reads_work io) dir sealed s1)" s1] not_sym)
  show "lkg_inv dir k (snd r)"
    using settled1 nodir1 frame by (simp add: r lkg_inv_def is_dir_def split: sum.splits)
  have img: "en = Inr sealed \<Longrightarrow> lkg_image P k rng now hash bdl = Some sealed" for sealed
    using enc(2)[of hash bdl now] en by simp
  note pub = lkg_publish_replaces[of dir _ s1 "reads_work io"]
  show "fst r = Inr u \<Longrightarrow> file_content ?p (snd r) = lkg_image P k rng now hash bdl
           \<and> lkg_image P k rng now hash bdl \<noteq> None"
    using img replaces_ok[OF pub] by (auto simp: r split: sum.splits)
  show "fst r = Inl e \<Longrightarrow> file_content ?p (snd r) = file_content ?p s"
    using f1 replaces_err[OF pub] by (auto simp: r split: sum.splits)
qed

text \<open>One save with its own file system behaviour, randomness and clock; reads are healthy.\<close>

definition lkg_step :: "'b lkg_packages \<Rightarrow> path \<Rightarrow> io \<times> rng \<times> datetime \<times> string \<times> 'b \<Rightarrow> (fs, lkg_error, unit) action" where
  "lkg_step P dir = (\<lambda>(io, rng, now, hash, b). lkg_save P (reads_work io) rng now (in_state_dir dir) hash b)"

definition step_image :: "'b lkg_packages \<Rightarrow> bytes \<Rightarrow> io \<times> rng \<times> datetime \<times> string \<times> 'b \<Rightarrow> bytes option" where
  "step_image P k = (\<lambda>(io, rng, now, hash, b). lkg_image P k rng now hash b)"

interpretation lkg_cell: atomic_cell "lkg_inv dir k" "file_content (join dir ''lkg-config.bin'')"
  "lkg_step P dir" "\<lambda>x _. step_image P k x" for P dir k
  by unfold_locales (auto simp: lkg_step_def step_image_def split_def lkg_save_effect dest: lkg_save_effect)

lemma lkg_step_sealed:
  "lkg_inv dir k s \<Longrightarrow> fst (lkg_step P dir x s) = Inr u \<Longrightarrow> step_image P k x \<noteq> None"
  by (cases x) (simp add: lkg_step_def step_image_def lkg_save_effect)

section \<open>Opening a sealed file\<close>

definition lkg_open :: "'b lkg_packages \<Rightarrow> bytes \<Rightarrow> bytes \<Rightarrow> lkg_error + (string \<times> 'b) option" where
  "lkg_open P k sealed =
     (case sealed of
        [] \<Rightarrow> Inl LkgEmpty
      | ver # rest \<Rightarrow>
          (if ver \<noteq> FILE_VERSION then Inl (LkgVersion ver)
           else if length rest < NONCE_LEN then Inl LkgTruncated
           else case hkdf_sha256 (lk_crypto P) HKDF_SALT k HKDF_INFO 32 of
                  None \<Rightarrow> Inl LkgHkdf
                | Some key \<Rightarrow>
          (case gcm_decrypt (lk_crypto P) key (take NONCE_LEN rest) [] (drop NONCE_LEN rest) of
             None \<Rightarrow> Inl LkgDecrypt
           | Some plain \<Rightarrow>
          (case Option.bind (json_parse (lk_text P) plain) (lkg_of_json P) of
             None \<Rightarrow> Inl LkgJson
           | Some entry \<Rightarrow>
          (case pb_decode P (bundle_proto entry) of
             None \<Rightarrow> Inl LkgProto
           | Some b \<Rightarrow> Inr (Some (lkg_config_hash entry, b)))))))"

lemma load_bundle_settled:
  assumes "lkg_inv dir k s"
  shows "load_bundle P (reads_work io) rng (in_state_dir dir) s
    = (case file_content (join dir ''lkg-config.bin'') s of None \<Rightarrow> Inr None | Some bs \<Rightarrow> lkg_open P k bs, s)"
proof -
  note ns = node_secret_settled[of dir k s io rng]
  show ?thesis
    using assms ns
    by (auto simp: lkg_inv_def load_bundle_def lkg_load_def in_state_dir_def try_bind_def map_err_def
        fs_read_def lkg_decrypt_def derive_key_def ok_or_def lkg_open_def split_first_chunk_def
        split: option.splits list.splits)
qed

lemma lkg_json_roundtrip:
  assumes "b64_roundtrip (lk_b64 P)" and "dt_parse P (dt_print P (written_at e)) = Some (written_at e)"
  shows "lkg_of_json P (lkg_to_json P e) = Some e"
  using assms
  by (simp add: lkg_of_json_def lkg_to_json_def struct_fields_obj de_field_simps b64_roundtrip_def
      base64_bytes_serialize_def base64_bytes_deserialize_def)

text \<open>What the packages promise about one bundle: it survives each codec it goes through.\<close>

definition bundle_survives :: "'b lkg_packages \<Rightarrow> datetime \<Rightarrow> string \<Rightarrow> 'b \<Rightarrow> bool" where
  "bundle_survives P now hash b \<longleftrightarrow>
     pb_decode P (pb_encode P b) = Some b \<and> dt_parse P (dt_print P now) = Some now
   \<and> json_reads_back (lk_text P)
       (lkg_to_json P \<lparr>lkg_config_hash = hash, bundle_proto = pb_encode P b, written_at = now\<rparr>)"

lemma lkg_open_image:
  assumes "gcm_roundtrip (lk_crypto P)" "b64_roundtrip (lk_b64 P)" "rng_works rng"
    and "bundle_survives P now hash b" and "lkg_image P k rng now hash b = Some sealed"
  shows "lkg_open P k sealed = Inr (Some (hash, b))"
proof -
  let ?js = "lkg_to_json P \<lparr>lkg_config_hash = hash, bundle_proto = pb_encode P b, written_at = now\<rparr>"
  obtain key n ct where key: "hkdf_sha256 (lk_crypto P) HKDF_SALT k HKDF_INFO 32 = Some key"
    and n: "rng NONCE_LEN = Some n"
    and ct: "gcm_encrypt (lk_crypto P) key n [] (json_print (lk_text P) ?js) = Some ct"
    and sealed: "sealed = FILE_VERSION # n @ ct"
    using assms(5) by (auto simp: lkg_image_def split: Option.bind_splits)
  have "length n = NONCE_LEN" using assms(3) n unfolding rng_works_def by (metis option.inject)
  moreover have "gcm_decrypt (lk_crypto P) key n [] ct = Some (json_print (lk_text P) ?js)"
    using assms(1) ct unfolding gcm_roundtrip_def by blast
  ultimately show ?thesis
    using assms(2,4) key by (simp add: lkg_open_def sealed bundle_survives_def json_reads_back_def lkg_json_roundtrip)
qed

section \<open>Saving on a healthy node\<close>

lemma reads_work_all [simp]: "reads_work all_works = all_works"
  by (rule ext) (simp add: reads_work_def split: fs_op.splits)

text \<open>No path the cache uses is in the way: no file where a directory belongs and conversely.\<close>

definition paths_free :: "path \<Rightarrow> fs \<Rightarrow> bool" where
  "paths_free dir s \<longleftrightarrow>
     (\<forall>q \<in> set (prefixes dir). files s q = None)
   \<and> \<not> is_dir (join dir ''lkg-config.bin'') s \<and> \<not> is_dir (join dir ''lkg-config.bin.tmp'') s
   \<and> \<not> is_dir (secret_path dir) s"

lemma join_not_prefix: "\<not> prefix (join dir f) dir"
  by (auto simp: join_def dest: prefix_length_le)

lemma create_dir_works:
  assumes "paths_free dir s"
  shows "\<exists>s'. create_dir_all all_works dir s = (Inr (), s') \<and> paths_free dir s' \<and> is_dir dir s'"
  using assms join_not_prefix[of dir] by (auto simp: create_dir_all_def paths_free_def is_dir_def secret_path_def)

lemma paths_free_frame:
  assumes "paths_free dir s" and "dirs s' = dirs s" and "\<And>q. q \<in> set (prefixes dir) \<Longrightarrow> files s' q = files s q"
  shows "paths_free dir s'"
  using assms by (simp add: paths_free_def is_dir_def)

lemma node_secret_succeeds:
  assumes "rng_works rng" and "paths_free dir s" and "is_dir dir s"
  shows "\<exists>k s'. node_secret all_works rng dir s = (Inr k, s') \<and> paths_free dir s' \<and> is_dir dir s'"
proof -
  obtain k where k: "rng 32 = Some k" "length k = 32" using rng_worksD[OF assms(1)] by blast
  obtain s1 where mk: "create_dir_all all_works dir s = (Inr (), s1)" "paths_free dir s1" "is_dir dir s1"
    using create_dir_works[OF assms(2)] by blast
  have "secret_path dir \<notin> set (prefixes dir)" using join_not_prefix by (simp add: secret_path_def)
  with k mk have "\<exists>k s'. generate_secret all_works rng dir s = (Inr k, s') \<and> paths_free dir s' \<and> is_dir dir s'"
    by (auto simp: generate_secret_def try_bind_def map_err_def NODE_SECRET_LEN_def fs_write_def fs_chmod_def
        paths_free_def is_dir_def secret_path_def join_def)
  with assms(2,3) show ?thesis
    by (auto simp: node_secret_def try_bind_def map_err_def fs_read_def paths_free_def path_exists_def
        split: option.splits)
qed

lemma lkg_encrypt_succeeds:
  assumes "node_secret io rng dir s = (Inr k, s')" and "rng_works rng"
    and "hkdf_accepts (lk_crypto P)" and "gcm_accepts (lk_crypto P)"
    and "length (json_print (lk_text P) (lkg_to_json P
           \<lparr>lkg_config_hash = hash, bundle_proto = pb_encode P b, written_at = now\<rparr>)) < 2 ^ 36"
  shows "\<exists>sealed. lkg_encrypt (lk_crypto P) io rng (json_print (lk_text P) (lkg_to_json P
             \<lparr>lkg_config_hash = hash, bundle_proto = pb_encode P b, written_at = now\<rparr>)) dir s = (Inr sealed, s')
           \<and> lkg_image P k rng now hash b = Some sealed"
proof -
  let ?js = "json_print (lk_text P) (lkg_to_json P
           \<lparr>lkg_config_hash = hash, bundle_proto = pb_encode P b, written_at = now\<rparr>)"
  have "(32::nat) \<le> 255 * 32" by simp
  with assms(3) obtain key where key: "hkdf_sha256 (lk_crypto P) HKDF_SALT k HKDF_INFO 32 = Some key"
    "length key = 32"
    unfolding hkdf_accepts_def by blast
  obtain n where n: "rng NONCE_LEN = Some n" "length n = 12"
    using rng_worksD[OF assms(2)] by (auto simp: NONCE_LEN_def)
  obtain ct where "gcm_encrypt (lk_crypto P) key n [] ?js = Some ct"
    using assms(4,5) key(2) n(2) unfolding gcm_accepts_def by (metis option.exhaust)
  with assms(1) key n show ?thesis
    by (simp add: lkg_encrypt_def derive_key_def ok_or_def try_bind_def lkg_image_def)
qed

lemma lkg_publish_succeeds:
  assumes "paths_free dir s" and "is_dir dir s"
  shows "fst (lkg_publish all_works dir sealed s) = Inr ()"
    and "map_option perm (files (snd (lkg_publish all_works dir sealed s)) (join dir ''lkg-config.bin'')) = Some mode_600"
  using assms
  by (simp_all add: lkg_publish_def try_bind_def map_err_def fs_write_def fs_rename_def fs_chmod_def
      paths_free_def is_dir_def join_def)

lemma lkg_save_works:
  assumes "hkdf_accepts (lk_crypto P)" and "gcm_accepts (lk_crypto P)" and "rng_works rng"
    and "length (json_print (lk_text P) (lkg_to_json P
           \<lparr>lkg_config_hash = hash, bundle_proto = pb_encode P b, written_at = now\<rparr>)) < 2 ^ 36"
    and "paths_free dir s"
  obtains k sealed s' where "lkg_save P all_works rng now (in_state_dir dir) hash b s = (Inr (), s')"
    "lkg_inv dir k s'" "lkg_image P k rng now hash b = Some sealed"
    "file_content (join dir ''lkg-config.bin'') s' = Some sealed"
    "map_option perm (files s' (join dir ''lkg-config.bin'')) = Some mode_600"
proof -
  obtain s1 where mk: "create_dir_all all_works dir s = (Inr (), s1)" "paths_free dir s1" "is_dir dir s1"
    using create_dir_works[OF assms(5)] by blast
  obtain k s2 where ns: "node_secret all_works rng dir s1 = (Inr k, s2)" "paths_free dir s2" "is_dir dir s2"
    using node_secret_succeeds[OF assms(3) mk(2,3)] by blast
  obtain sealed where enc: "lkg_encrypt (lk_crypto P) all_works rng (json_print (lk_text P) (lkg_to_json P
       \<lparr>lkg_config_hash = hash, bundle_proto = pb_encode P b, written_at = now\<rparr>)) dir s1 = (Inr sealed, s2)"
    and img: "lkg_image P k rng now hash b = Some sealed"
    using lkg_encrypt_succeeds[OF ns(1) assms(3,1,2,4)] by blast
  let ?pub = "lkg_publish all_works dir sealed s2"
  note pub = lkg_publish_succeeds[OF ns(2,3), of sealed]
  have save: "lkg_save P all_works rng now (in_state_dir dir) hash b s = (Inr (), snd ?pub)"
    using lkg_save_steps[of P all_works rng now dir hash b s] mk(1) enc pub(1)
    by (cases ?pub) (simp add: try_bind_def map_err_def)
  have "secret_settled dir k s2" using node_secret_settles[of all_works] ns(1) assms(3) by simp
  then have "lkg_inv dir k (snd ?pub)"
    using ns(2) lkg_paths_differ[of dir] lkg_not_machine_id[of _ dir]
    by (simp add: lkg_inv_def paths_free_def is_dir_def secret_settled_frame[of "snd ?pub" s2] lkg_publish_frame not_sym)
  with that save img pub(2) replaces_ok[OF lkg_publish_replaces pub(1)] show thesis by blast
qed

section \<open>Properties\<close>

text \<open>
  C10. On a node whose secret is settled, any series of saves of configuration bundles, each with
  its own write failures, leaves a cache that opens: to the hash and bundle of the last save that
  reported success, or to whatever it opened to before when none did. No failed or interrupted save
  makes the last known good configuration unreadable.
\<close>

theorem lkg_last_success:
  assumes "gcm_roundtrip (lk_crypto P)" and "b64_roundtrip (lk_b64 P)"
    and "\<forall>(io, rng, now, hash, b) \<in> set saves. rng_works rng \<and> bundle_survives P now hash b"
    and "lkg_inv dir k s"
  shows "fst (load_bundle P (reads_work io) rng (in_state_dir dir) (snd (cell_run (lkg_step P dir) saves s)))
         = (case fst (cell_run (lkg_step P dir) saves s) of
              [] \<Rightarrow> fst (load_bundle P (reads_work io) rng (in_state_dir dir) s)
            | done \<Rightarrow> (case last done of (_, _, _, hash, b) \<Rightarrow> Inr (Some (hash, b))))"
proof -
  let ?p = "join dir ''lkg-config.bin''"
  obtain ys t where run: "cell_run (lkg_step P dir) saves s = (ys, t)"
    by (cases "cell_run (lkg_step P dir) saves s")
  have inv: "lkg_inv dir k t"
    using lkg_cell.run_refines_register[OF assms(4), of P saves] run by simp
  have view: "file_content ?p t = (case ys of [] \<Rightarrow> file_content ?p s | zs \<Rightarrow> step_image P k (last zs))"
    using lkg_cell.last_success_wins[OF assms(4), of P "step_image P k" saves] by (simp add: run)
  show ?thesis
  proof (cases "ys = []")
    case True
    with run view show ?thesis
      by (simp add: load_bundle_settled[OF inv] load_bundle_settled[OF assms(4)])
  next
    case False
    obtain io' rng' now hash b where l: "last ys = (io', rng', now, hash, b)" by (cases "last ys") auto
    have "list_all (\<lambda>x. step_image P k x \<noteq> None) ys"
      using lkg_cell.run_successes[OF assms(4), where P = P and Q = "\<lambda>x. step_image P k x \<noteq> None" and xs = saves]
        lkg_step_sealed run by (metis fst_conv)
    with l False obtain sealed where sealed: "lkg_image P k rng' now hash b = Some sealed"
      by (auto simp: list_all_iff step_image_def dest!: last_in_set bspec)
    have "last ys \<in> set saves"
      using cell_run_subset[of "lkg_step P dir" saves s] run last_in_set[OF False] by auto
    with assms(3) l have "rng_works rng'" "bundle_survives P now hash b" by auto
    note opens = lkg_open_image[OF assms(1,2) this sealed]
    from False view l sealed have "file_content ?p t = Some sealed"
      by (cases ys) (auto simp: step_image_def)
    with opens False l show ?thesis
      by (cases ys) (auto simp: run load_bundle_settled[OF inv])
  qed
qed

text \<open>Packages for the witnesses: the bundles are byte strings, encoded as themselves.\<close>

definition demo_instant :: datetime where "demo_instant = DateTime 1700000000 0"

definition demo_entry :: "string \<Rightarrow> bytes \<Rightarrow> json" where
  "demo_entry hash b =
     JObj [(''config_hash'', JStr hash), (''bundle_proto'', JStr (hex_encode b)), (''written_at'', JStr ''t'')]"

definition demo_packages :: "bytes lkg_packages" where
  "demo_packages =
     \<lparr>pb_encode = (\<lambda>b. b), pb_decode = Some, dt_print = (\<lambda>_. ''t''), dt_parse = (\<lambda>_. Some demo_instant),
      lk_text = table_text [demo_entry ''h1'' [1], demo_entry ''h2'' [2, 3]],
      lk_b64 = demo_base64, lk_crypto = demo_crypto\<rparr>"

lemma demo_packages_ok:
  "gcm_roundtrip (lk_crypto demo_packages)" "b64_roundtrip (lk_b64 demo_packages)"
  "hkdf_accepts (lk_crypto demo_packages)" "gcm_accepts (lk_crypto demo_packages)"
  by (simp_all add: demo_packages_def demo_parameters_ok)

lemma demo_survives:
  "bundle_survives demo_packages demo_instant ''h1'' [1]"
  "bundle_survives demo_packages demo_instant ''h2'' [2, 3]"
  by (simp_all add: bundle_survives_def demo_packages_def lkg_to_json_def base64_bytes_serialize_def
      demo_base64_def demo_entry_def [symmetric] table_text_reads_back)

definition bare_fs :: fs where
  "bare_fs = \<lparr>files = (\<lambda>_. None), dirs = {[''s'']}, create_perm = 420\<rparr>"

definition settled_fs :: fs where
  "settled_fs = bare_fs\<lparr>files := [[''s'', ''.node-secret''] \<mapsto> \<lparr>content = replicate 32 4, perm = mode_600\<rparr>]\<rparr>"

lemma settled_fs_inv: "lkg_inv [''s''] (replicate 32 4) settled_fs"
  by (simp add: lkg_inv_def secret_settled_def machine_secret_content machine_id_path_def settled_fs_def
      bare_fs_def secret_path_def NODE_SECRET_FILE_def join_def is_dir_def)

definition torn_write :: io where
  "torn_write = (\<lambda>op. if op = OpWrite [''s'', ''lkg-config.bin.tmp''] then Fails (Some 5) else Works)"

lemma torn_write_fails: "\<exists>e. fst (lkg_step P [''s''] (torn_write, rng, now, hash, b) s) = Inl e"
proof (rule ccontr)
  assume "\<not> ?thesis"
  then obtain s' where "lkg_step P [''s''] (torn_write, rng, now, hash, b) s = (Inr (), s')"
    by (cases "lkg_step P [''s''] (torn_write, rng, now, hash, b) s";
        cases "fst (lkg_step P [''s''] (torn_write, rng, now, hash, b) s)") auto
  moreover have "reads_work torn_write (OpWrite [''s'', ''lkg-config.bin.tmp'']) = Fails (Some 5)"
    by (simp add: reads_work_def torn_write_def)
  ultimately show False
    by (auto simp: lkg_step_def lkg_save_steps lkg_publish_def try_bind_Inr_iff map_err_Inr_iff fs_write_def
        join_def split: if_splits)
qed

lemma demo_print_short: "length (json_print (lk_text demo_packages) v) < 2 ^ 36"
  by (simp add: demo_packages_def table_text_def)

lemma settled_fs_free: "paths_free [''s''] settled_fs" "paths_free [''s''] bare_fs"
  by (simp_all add: paths_free_def settled_fs_def bare_fs_def is_dir_def join_def secret_path_def NODE_SECRET_FILE_def)

theorem lkg_last_success_witness:
  "fst (load_bundle demo_packages (reads_work all_works) demo_rng (in_state_dir [''s''])
     (snd (cell_run (lkg_step demo_packages [''s''])
        [(all_works, demo_rng, demo_instant, ''h1'', [1]), (torn_write, demo_rng, demo_instant, ''h2'', [2, 3])]
        settled_fs))) = Inr (Some (''h1'', [1]))"
proof -
  let ?saves = "[(all_works, demo_rng, demo_instant, ''h1'', [1]), (torn_write, demo_rng, demo_instant, ''h2'', [2, 3])]"
  have ok: "\<forall>(io, rng, now, hash, b) \<in> set ?saves. rng_works rng \<and> bundle_survives demo_packages now hash b"
    by (simp add: demo_survives demo_parameters_ok)
  obtain s1 where "lkg_save demo_packages all_works demo_rng demo_instant (in_state_dir [''s'']) ''h1'' [1] settled_fs = (Inr (), s1)"
    by (rule lkg_save_works[OF demo_packages_ok(3,4) demo_parameters_ok(6) demo_print_short settled_fs_free(1)])
  then have "lkg_step demo_packages [''s''] (all_works, demo_rng, demo_instant, ''h1'', [1]) settled_fs = (Inr (), s1)"
    by (simp add: lkg_step_def)
  moreover obtain e s2 where "lkg_step demo_packages [''s''] (torn_write, demo_rng, demo_instant, ''h2'', [2, 3]) s1 = (Inl e, s2)"
    using torn_write_fails by (metis prod.collapse)
  ultimately have "fst (cell_run (lkg_step demo_packages [''s'']) ?saves settled_fs)
      = [(all_works, demo_rng, demo_instant, ''h1'', [1])]"
    by simp
  with lkg_last_success[OF demo_packages_ok(1,2) ok settled_fs_inv, of all_works demo_rng] show ?thesis
    by simp
qed

text \<open>
  C28. On a healthy file system a first save goes through, also on a node that has no secret yet:
  it reports success, the file is readable by its owner only, and the next start reads back the
  very hash and bundle, whatever randomness it has.
\<close>

theorem lkg_save_then_load:
  assumes "gcm_roundtrip (lk_crypto P)" and "b64_roundtrip (lk_b64 P)" and "hkdf_accepts (lk_crypto P)"
    and "gcm_accepts (lk_crypto P)" and "rng_works rng" and "bundle_survives P now hash b"
    and "length (json_print (lk_text P) (lkg_to_json P
           \<lparr>lkg_config_hash = hash, bundle_proto = pb_encode P b, written_at = now\<rparr>)) < 2 ^ 36"
    and "paths_free dir s"
  shows "\<exists>s'. lkg_save P all_works rng now (in_state_dir dir) hash b s = (Inr (), s')
           \<and> load_bundle P all_works rng' (in_state_dir dir) s' = (Inr (Some (hash, b)), s')
           \<and> map_option perm (files s' (join dir ''lkg-config.bin'')) = Some mode_600"
proof -
  obtain k sealed s' where "lkg_save P all_works rng now (in_state_dir dir) hash b s = (Inr (), s')"
    and inv: "lkg_inv dir k s'" and img: "lkg_image P k rng now hash b = Some sealed"
    and "file_content (join dir ''lkg-config.bin'') s' = Some sealed"
    and "map_option perm (files s' (join dir ''lkg-config.bin'')) = Some mode_600"
    by (rule lkg_save_works[OF assms(3,4,5,7,8)])
  with lkg_open_image[OF assms(1,2,5,6) img] load_bundle_settled[OF inv, of P all_works rng'] show ?thesis
    by auto
qed

theorem lkg_save_then_load_witness:
  "\<exists>s'. lkg_save demo_packages all_works demo_rng demo_instant (in_state_dir [''s'']) ''h2'' [2, 3] bare_fs = (Inr (), s')
      \<and> load_bundle demo_packages all_works (\<lambda>_. None) (in_state_dir [''s'']) s' = (Inr (Some (''h2'', [2, 3])), s')
      \<and> map_option perm (files s' (join [''s''] ''lkg-config.bin'')) = Some mode_600"
  by (rule lkg_save_then_load[OF demo_packages_ok demo_parameters_ok(6) demo_survives(2) demo_print_short settled_fs_free(2)])

text \<open>
  C29. The node secret is stable: once it has been handed out, every later request returns the same
  bytes and changes nothing on disk, whatever fails to be written and whatever the randomness, as
  long as reads are healthy. So a key derived today opens what was sealed yesterday.
\<close>

theorem node_secret_stable:
  assumes "node_secret (reads_work io) rng dir s = (Inr k, s')" and "rng_works rng"
  shows "node_secret (reads_work io') rng' dir s' = (Inr k, s')"
  using node_secret_settled[OF node_secret_settles[OF assms]] .

theorem node_secret_stable_witness:
  "node_secret (reads_work all_works) (\<lambda>_. None) [''s''] settled_fs = (Inr (replicate 32 4), settled_fs)"
  using node_secret_stable[of all_works demo_rng "[''s'']" settled_fs "replicate 32 4" settled_fs all_works "\<lambda>_. None"]
    node_secret_settled[of "[''s'']" "replicate 32 4" settled_fs all_works demo_rng] settled_fs_inv demo_parameters_ok(6)
  by (simp add: lkg_inv_def)

text \<open>
  Healthy reads are needed: one failed read of \<open>/etc/machine-id\<close> on a machine that has one makes the
  call fall back to the secret in the state directory, so the key of that call is another one, with
  nothing changed on disk and no error reported. What it seals does not open under the machine's key.
\<close>

theorem failed_machine_id_read_changes_the_secret:
  assumes "machine_secret all_works s = Some k" and "file_content (secret_path dir) s = Some k'" and "length k' = NODE_SECRET_LEN"
  shows "node_secret all_works rng dir s = (Inr k, s)
       \<and> node_secret (all_works(OpRead machine_id_path := Fails None)) rng dir s = (Inr k', s)"
proof -
  have "machine_secret (all_works(OpRead machine_id_path := Fails None)) s = None"
    by (simp add: machine_secret_def read_to_string_def try_bind_def fs_read_def split: option.splits)
  with assms secret_path_differs[of dir] show ?thesis
    by (auto simp: node_secret_def path_exists_def try_bind_def map_err_def fs_read_def)
qed

text \<open>
  C30. A damaged cache file is an error, never a configuration and never taken for an absent one: an
  empty file, a file of another version, one cut short of its nonce, and one whose ciphertext does
  not authenticate each report their own error, and the file system is left as it was.
\<close>

theorem lkg_rejects_damage:
  assumes "lkg_inv dir k s" and "file_content (join dir ''lkg-config.bin'') s = Some sealed"
  shows "(sealed = [] \<longrightarrow> load_bundle P (reads_work io) rng (in_state_dir dir) s = (Inl LkgEmpty, s))
       \<and> (sealed \<noteq> [] \<and> hd sealed \<noteq> FILE_VERSION
            \<longrightarrow> load_bundle P (reads_work io) rng (in_state_dir dir) s = (Inl (LkgVersion (hd sealed)), s))
       \<and> (sealed \<noteq> [] \<and> hd sealed = FILE_VERSION \<and> length sealed < 13
            \<longrightarrow> load_bundle P (reads_work io) rng (in_state_dir dir) s = (Inl LkgTruncated, s))
       \<and> (13 \<le> length sealed \<and> hd sealed = FILE_VERSION
          \<and> hkdf_sha256 (lk_crypto P) HKDF_SALT k HKDF_INFO 32 = Some key
          \<and> gcm_decrypt (lk_crypto P) key (take 12 (tl sealed)) [] (drop 13 sealed) = None
            \<longrightarrow> load_bundle P (reads_work io) rng (in_state_dir dir) s = (Inl LkgDecrypt, s))"
  using assms(2) unfolding load_bundle_settled[OF assms(1)]
  by (cases sealed) (auto simp: lkg_open_def NONCE_LEN_def)

theorem lkg_rejects_damage_witness:
  "load_bundle demo_packages (reads_work all_works) demo_rng (in_state_dir [''s''])
     (put_file [''s'', ''lkg-config.bin''] [1, 2, 3] settled_fs)
   = (Inl LkgTruncated, put_file [''s'', ''lkg-config.bin''] [1, 2, 3] settled_fs)"
proof -
  have "lkg_inv [''s''] (replicate 32 4) (put_file [''s'', ''lkg-config.bin''] [1, 2, 3] settled_fs)"
    using settled_fs_inv
    by (simp add: lkg_inv_def is_dir_def secret_settled_def machine_secret_content secret_path_def
        NODE_SECRET_FILE_def join_def machine_id_path_def)
  from lkg_rejects_damage[OF this, of "[1, 2, 3]" demo_packages all_works demo_rng] show ?thesis
    by (simp add: join_def FILE_VERSION_def)
qed

end
