(* ===== verification/LicenseDelivery.thy ===== *)
theory LicenseDelivery
  imports FileSys Json
begin

text \<open>
  \<open>src/license_delivery.rs\<close>: the licence delivery kept on disk. \<open>save_cached\<close> rewrites
  \<open>platform-license.json\<close> through a temporary, \<open>load_cached\<close> reads it. The shared shape
  of such state files is the locale \<open>atomic_cell\<close> of the file system theory, interpreted here.
\<close>

section \<open>Data and operations\<close>

record license_delivery =
  license_jwt :: string
  org_slug :: string
  refresh_failing :: bool
  delivery_proof :: string
  channel_nonce :: string
  ld_instance_uid :: string

definition license_to_json :: "license_delivery \<Rightarrow> json" where
  "license_to_json d =
     JObj [(''license_jwt'', JStr (license_jwt d)),
           (''org_slug'', JStr (org_slug d)),
           (''refresh_failing'', JBool (refresh_failing d)),
           (''delivery_proof'', JStr (delivery_proof d)),
           (''channel_nonce'', JStr (channel_nonce d)),
           (''instance_uid'', JStr (ld_instance_uid d))]"

definition license_of_json :: "json \<Rightarrow> license_delivery option" where
  "license_of_json v =
     Option.bind (struct_fields [''license_jwt'', ''org_slug'', ''refresh_failing'', ''delivery_proof'',
                                 ''channel_nonce'', ''instance_uid''] v) (\<lambda>m.
     Option.bind (required de_string m ''license_jwt'') (\<lambda>jwt.
     Option.bind (required de_string m ''org_slug'') (\<lambda>slug.
     Option.bind (defaulted False de_bool m ''refresh_failing'') (\<lambda>failing.
     Option.bind (defaulted [] de_string m ''delivery_proof'') (\<lambda>proof.
     Option.bind (defaulted [] de_string m ''channel_nonce'') (\<lambda>nonce.
     Option.bind (defaulted [] de_string m ''instance_uid'') (\<lambda>uid.
     Some \<lparr>license_jwt = jwt, org_slug = slug, refresh_failing = failing, delivery_proof = proof,
           channel_nonce = nonce, ld_instance_uid = uid\<rparr>)))))))"

definition CACHE_FILE :: string where "CACHE_FILE = ''platform-license.json''"

definition cache_path :: "path \<Rightarrow> path" where
  "cache_path state_dir = join state_dir CACHE_FILE"

definition load_cached :: "json_text \<Rightarrow> io \<Rightarrow> path \<Rightarrow> fs \<Rightarrow> license_delivery option" where
  "load_cached T io state_dir s =
     (case fst (fs_read io (cache_path state_dir) s) of
        Inl _ \<Rightarrow> None
      | Inr bytes \<Rightarrow> Option.bind (json_parse T bytes) license_of_json)"

definition save_cached :: "json_text \<Rightarrow> io \<Rightarrow> path \<Rightarrow> license_delivery \<Rightarrow> (fs, io_error, unit) action" where
  "save_cached T io state_dir delivery =
     try_bind (create_dir_all io state_dir) (\<lambda>_.
       let path = cache_path state_dir; tmp = with_extension path ''json.tmp''
       in try_bind (fs_write io tmp (json_print T (license_to_json delivery))) (\<lambda>_.
          try_bind (fs_chmod io tmp mode_600) (\<lambda>_.
          fs_rename io tmp path)))"

section \<open>The cache file is an atomic cell\<close>

lemma license_json_roundtrip: "license_of_json (license_to_json d) = Some d"
  by (simp add: license_of_json_def license_to_json_def struct_fields_obj de_field_simps)

lemma license_tmp_path:
  "with_extension (cache_path dir) ''json.tmp'' = join dir ''platform-license.json.tmp''"
  by (simp add: cache_path_def CACHE_FILE_def join_def with_extension_def file_stem_def)

lemma license_tmp_differs: "with_extension (cache_path dir) ''json.tmp'' \<noteq> cache_path dir"
  unfolding license_tmp_path by (simp add: cache_path_def CACHE_FILE_def join_def)

lemma save_cached_replaces:
  "replaces (cache_path dir) (json_print T (license_to_json d)) s (save_cached T io dir d s)"
proof -
  define tmp bs where "tmp = with_extension (cache_path dir) ''json.tmp''"
    and "bs = json_print T (license_to_json d)"
  have tmp: "tmp \<noteq> cache_path dir" unfolding tmp_def by (rule license_tmp_differs)
  have "replaces (cache_path dir) bs s'
      (try_bind (fs_chmod io tmp mode_600) (\<lambda>_. fs_rename io tmp (cache_path dir)) s')"
    if "file_content tmp s' = Some bs" for s'
    using tmp that by (intro replaces_before replaces_rename) (auto simp: fs_chmod_frame dest!: fs_chmod_Inr)
  then show ?thesis
    unfolding save_cached_def Let_def tmp_def[symmetric] bs_def[symmetric]
    by (intro replaces_before[where m = "create_dir_all io dir"] replaces_write tmp) auto
qed

interpretation license_cell: atomic_cell "\<lambda>_. True" "file_content (cache_path dir)"
  "\<lambda>(io, d). save_cached T io dir d" "\<lambda>(io, d) _. Some (json_print T (license_to_json d))" for T dir
proof unfold_locales
  fix s :: fs and x :: "io \<times> license_delivery" and u e
  obtain io d where x: "x = (io, d)" by (cases x)
  note r = save_cached_replaces[of dir T d s io]
  show "fst ((case x of (io, d) \<Rightarrow> save_cached T io dir d) s) = Inr u \<Longrightarrow>
    file_content (cache_path dir) (snd ((case x of (io, d) \<Rightarrow> save_cached T io dir d) s))
      = (case x of (io, d) \<Rightarrow> \<lambda>_. Some (json_print T (license_to_json d))) (file_content (cache_path dir) s)"
    using replaces_ok[OF r] by (simp add: x)
  show "fst ((case x of (io, d) \<Rightarrow> save_cached T io dir d) s) = Inl e \<Longrightarrow>
    file_content (cache_path dir) (snd ((case x of (io, d) \<Rightarrow> save_cached T io dir d) s))
      = file_content (cache_path dir) s"
    using replaces_err[OF r] by (simp add: x)
qed simp

text \<open>What a healthy read of the cache gives, from the file's content alone.\<close>

lemma load_cached_content:
  "io (OpRead (cache_path dir)) = Works \<Longrightarrow>
     load_cached T io dir s
       = Option.bind (file_content (cache_path dir) s) (\<lambda>bs. Option.bind (json_parse T bs) license_of_json)"
  by (auto simp: load_cached_def fs_read_def split: option.splits)

section \<open>Properties\<close>

text \<open>
  C27. Deliveries kept across any series of saves, each with its own failures (no directory, a
  partial write, a failed mode change or rename): what a later start loads is the delivery of the
  last save that reported success, complete, and when none did it is what was there before.
\<close>

theorem license_cache_last_success:
  assumes "\<forall>(io, d) \<in> set saves. json_reads_back T (license_to_json d)"
    and "io (OpRead (cache_path dir)) = Works"
  shows "load_cached T io dir (snd (cell_run (\<lambda>(io, d). save_cached T io dir d) saves s))
         = (case fst (cell_run (\<lambda>(io, d). save_cached T io dir d) saves s) of
              [] \<Rightarrow> load_cached T io dir s
            | done \<Rightarrow> Some (snd (last done)))"
proof -
  let ?step = "\<lambda>(io, d). save_cached T io dir d"
  have "file_content (cache_path dir) (snd (cell_run ?step saves s))
      = (case fst (cell_run ?step saves s) of
           [] \<Rightarrow> file_content (cache_path dir) s
         | done \<Rightarrow> Some (json_print T (license_to_json (snd (last done)))))"
    by (rule license_cell.last_success_wins) (auto split: prod.splits)
  moreover have "json_reads_back T (license_to_json (snd (last ys)))"
    if "fst (cell_run ?step saves s) = ys" "ys \<noteq> []" for ys
    using assms(1) that cell_run_subset[of ?step saves s] last_in_set[of ys] by (force simp: split_def)
  ultimately show ?thesis
    unfolding load_cached_content[of io dir, OF assms(2)] json_reads_back_def
    by (cases "fst (cell_run ?step saves s)") (auto simp add: license_json_roundtrip simp del: last.simps)
qed

definition demo_delivery :: "string \<Rightarrow> license_delivery" where
  "demo_delivery jwt =
     \<lparr>license_jwt = jwt, org_slug = ''acme'', refresh_failing = False, delivery_proof = [],
      channel_nonce = ''n'', ld_instance_uid = ''u''\<rparr>"

definition demo_license_text :: json_text where
  "demo_license_text = table_text (map (\<lambda>j. license_to_json (demo_delivery j)) [''a'', ''b''])"

definition empty_fs :: fs where
  "empty_fs = \<lparr>files = (\<lambda>_. None), dirs = {}, create_perm = 420\<rparr>"

text \<open>The second save fails half way through its write: the first delivery is the one loaded.\<close>

theorem license_cache_last_success_witness:
  "load_cached demo_license_text all_works [''s'']
     (snd (cell_run (\<lambda>(io, d). save_cached demo_license_text io [''s''] d)
        [(all_works, demo_delivery ''a''), ((\<lambda>_. Works)(OpWrite [''s'', ''platform-license.json.tmp''] := Fails (Some 0)), demo_delivery ''b'')]
        empty_fs)) = Some (demo_delivery ''a'')"
proof -
  let ?io = "(\<lambda>_. Works)(OpWrite [''s'', ''platform-license.json.tmp''] := Fails (Some 0))"
  let ?saves = "[(all_works, demo_delivery ''a''), (?io, demo_delivery ''b'')]"
  have reads: "\<forall>(io, d) \<in> set ?saves. json_reads_back demo_license_text (license_to_json d)"
    by (auto simp: demo_license_text_def intro!: table_text_reads_back)
  have "fst (cell_run (\<lambda>(io, d). save_cached demo_license_text io [''s''] d) ?saves empty_fs)
      = [(all_works, demo_delivery ''a'')]"
    by (simp add: save_cached_def Let_def license_tmp_path join_def cache_path_def CACHE_FILE_def
        with_extension_def file_stem_def create_dir_all_def empty_fs_def try_bind_def fs_write_def
        is_dir_def fs_chmod_def fs_rename_def)
  with license_cache_last_success[OF reads, of all_works "[''s'']" empty_fs] show ?thesis by simp
qed

text \<open>
  With a writable state directory a save goes through: it reports success, the file holds the
  delivery and is readable by its owner only, the temporary is gone, and the delivery loads back.
\<close>

theorem license_save_succeeds:
  assumes "\<forall>op. io op = Works" and "\<forall>q \<in> set (prefixes dir). files s q = None"
    and "\<not> is_dir (cache_path dir) s" and "\<not> is_dir (join dir ''platform-license.json.tmp'') s"
    and "json_reads_back T (license_to_json d)"
  shows "\<exists>s'. save_cached T io dir d s = (Inr (), s')
           \<and> load_cached T io dir s' = Some d
           \<and> map_option perm (files s' (cache_path dir)) = Some mode_600
           \<and> files s' (join dir ''platform-license.json.tmp'') = None"
proof -
  have p: "cache_path dir \<notin> set (prefixes dir)" "join dir ''platform-license.json.tmp'' \<notin> set (prefixes dir)"
    by (auto simp: cache_path_def join_def dest: prefix_length_le)
  have ne: "join dir ''platform-license.json.tmp'' \<noteq> cache_path dir" 
    by (simp add: cache_path_def CACHE_FILE_def join_def)
  show ?thesis
    using assms p ne
    by (simp add: save_cached_def Let_def license_tmp_path create_dir_all_def try_bind_def fs_write_def
        is_dir_def fs_chmod_def fs_rename_def load_cached_def fs_read_def json_reads_back_def
        license_json_roundtrip)
      (auto simp: join_def cache_path_def)
qed

theorem license_save_succeeds_witness:
  "\<exists>s'. save_cached demo_license_text all_works [''s''] (demo_delivery ''b'') empty_fs = (Inr (), s')
      \<and> load_cached demo_license_text all_works [''s''] s' = Some (demo_delivery ''b'')
      \<and> map_option perm (files s' (cache_path [''s''])) = Some mode_600
      \<and> files s' (join [''s''] ''platform-license.json.tmp'') = None"
  by (rule license_save_succeeds)
    (auto simp: empty_fs_def is_dir_def join_def cache_path_def demo_license_text_def
      intro!: table_text_reads_back)

end
