(* ===== verification/Rpc.thy ===== *)
theory Rpc
  imports Prelude
begin

text \<open>
  What the crate sees of gRPC: statuses with their code, message and metadata, the cause chain of an
  \<open>anyhow::Error\<close>, and request metadata. Which strings make a valid metadata value is decided
  in \<open>tonic\<close> and stays a parameter (\<open>metadata_rules\<close>).
\<close>

datatype code =
    CodeOk | CodeCancelled | CodeUnknown | CodeInvalidArgument | CodeDeadlineExceeded | CodeNotFound
  | CodeAlreadyExists | CodePermissionDenied | CodeResourceExhausted | CodeFailedPrecondition
  | CodeAborted | CodeOutOfRange | CodeUnimplemented | CodeInternal | CodeUnavailable | CodeDataLoss
  | CodeUnauthenticated

text \<open>The name \<open>Debug\<close> prints.\<close>

fun code_debug :: "code \<Rightarrow> string" where
  "code_debug CodeOk = ''Ok''"
| "code_debug CodeCancelled = ''Cancelled''"
| "code_debug CodeUnknown = ''Unknown''"
| "code_debug CodeInvalidArgument = ''InvalidArgument''"
| "code_debug CodeDeadlineExceeded = ''DeadlineExceeded''"
| "code_debug CodeNotFound = ''NotFound''"
| "code_debug CodeAlreadyExists = ''AlreadyExists''"
| "code_debug CodePermissionDenied = ''PermissionDenied''"
| "code_debug CodeResourceExhausted = ''ResourceExhausted''"
| "code_debug CodeFailedPrecondition = ''FailedPrecondition''"
| "code_debug CodeAborted = ''Aborted''"
| "code_debug CodeOutOfRange = ''OutOfRange''"
| "code_debug CodeUnimplemented = ''Unimplemented''"
| "code_debug CodeInternal = ''Internal''"
| "code_debug CodeUnavailable = ''Unavailable''"
| "code_debug CodeDataLoss = ''DataLoss''"
| "code_debug CodeUnauthenticated = ''Unauthenticated''"

type_synonym metadata = "string \<rightharpoonup> string"

record status =
  st_code :: code
  st_message :: string
  st_metadata :: metadata

record metadata_rules =
  md_try_from :: "string \<Rightarrow> bool" \<comment> \<open>the string is accepted as a metadata value\<close>
  md_to_str :: "string \<Rightarrow> bool" \<comment> \<open>the value reads as a string\<close>

text \<open>
  An \<open>anyhow::Error\<close>: its chain of causes, outermost first. Each cause is a
  \<open>tonic::Status\<close> (with the text it displays as) or something else.
\<close>

datatype cause = StatusCause status string | OtherCause string

type_synonym anyhow = "cause list"

fun downcast_status :: "cause \<Rightarrow> status option" where
  "downcast_status (StatusCause st _) = Some st"
| "downcast_status (OtherCause _) = None"

fun cause_text :: "cause \<Rightarrow> string" where
  "cause_text (StatusCause _ t) = t"
| "cause_text (OtherCause t) = t"

definition anyhow_text :: "anyhow \<Rightarrow> string" where
  "anyhow_text e = (case e of [] \<Rightarrow> [] | c # _ \<Rightarrow> cause_text c)"

definition status_in :: "anyhow \<Rightarrow> status option" where
  "status_in e = find_map downcast_status e"

definition anyhow_msg :: "string \<Rightarrow> anyhow" where
  "anyhow_msg t = [OtherCause t]"

lemma status_in_msg [simp]: "status_in (anyhow_msg t) = None"
  by (simp add: status_in_def anyhow_msg_def)

end
