(* ===== verification/Client.thy ===== *)
theory Client
  imports Rpc
begin

text \<open>
  \<open>src/client.rs\<close>: the gRPC client. An established channel remembers the endpoint
  configuration it was dialled with, which is what makes the life time of TLS material visible. The
  transport (URI syntax, TLS configuration, dialling) and the server's answers are parameters.
\<close>

section \<open>Data\<close>

record client_tls_material =
  ca_pem :: string
  client_cert_pem :: string
  client_key_pem :: string
  server_name :: "string option"

text \<open>\<open>ClientTlsConfig\<close> and \<open>Endpoint\<close> with the options the crate sets.\<close>

record tls_config =
  tc_ca :: "string option"
  tc_identity :: "(string \<times> string) option"
  tc_domain :: "string option"

record endpoint_config =
  ep_uri :: string
  ep_timeout :: duration
  ep_keep_alive_while_idle :: bool
  ep_keep_alive_timeout :: duration
  ep_http2_keep_alive_interval :: duration
  ep_tls :: "tls_config option"

type_synonym channel = endpoint_config

record transport =
  uri_error :: "string \<Rightarrow> anyhow option"
  tls_error :: "tls_config \<Rightarrow> anyhow option"
  dial_error :: "endpoint_config \<Rightarrow> anyhow option"

record agent_client =
  endpoint :: string
  channel :: "channel option"
  jwt :: "string option"
  tls :: "client_tls_material option"

section \<open>Operations\<close>

definition client_new :: "string \<Rightarrow> agent_client" where
  "client_new e = \<lparr>endpoint = e, channel = None, jwt = None, tls = None\<rparr>"

definition set_tls :: "client_tls_material option \<Rightarrow> agent_client \<Rightarrow> agent_client" where
  "set_tls m c = c\<lparr>tls := m\<rparr>"

definition set_jwt :: "string \<Rightarrow> agent_client \<Rightarrow> agent_client" where
  "set_jwt t c = c\<lparr>jwt := Some t\<rparr>"

definition current_jwt :: "agent_client \<Rightarrow> string option" where
  "current_jwt c = jwt c"

text \<open>The TLS configuration \<open>connect\<close> installs on an \<open>https\<close> endpoint.\<close>

definition tls_cfg :: "client_tls_material option \<Rightarrow> tls_config" where
  "tls_cfg t =
     (case t of
        None \<Rightarrow> \<lparr>tc_ca = None, tc_identity = None, tc_domain = None\<rparr>
      | Some m \<Rightarrow>
          \<lparr>tc_ca = Some (ca_pem m),
           tc_identity = (if client_cert_pem m \<noteq> [] \<and> client_key_pem m \<noteq> []
                          then Some (client_cert_pem m, client_key_pem m) else None),
           tc_domain = server_name m\<rparr>)"

definition base_endpoint :: "string \<Rightarrow> endpoint_config" where
  "base_endpoint e =
     \<lparr>ep_uri = e, ep_timeout = from_secs 10, ep_keep_alive_while_idle = True,
      ep_keep_alive_timeout = from_secs 20, ep_http2_keep_alive_interval = from_secs 20, ep_tls = None\<rparr>"

definition connect :: "transport \<Rightarrow> (agent_client, anyhow, unit) action" where
  "connect net c =
     (if channel c \<noteq> None then (Inr (), c)
      else case uri_error net (endpoint c) of
        Some e \<Rightarrow> (Inl e, c)
      | None \<Rightarrow>
          (let ep = base_endpoint (endpoint c); cfg = tls_cfg (tls c)
           in if starts_with ''https://'' (endpoint c)
              then (case tls_error net cfg of
                      Some e \<Rightarrow> (Inl e, c)
                    | None \<Rightarrow>
                        (case dial_error net (ep\<lparr>ep_tls := Some cfg\<rparr>) of
                           Some e \<Rightarrow> (Inl e, c)
                         | None \<Rightarrow> (Inr (), c\<lparr>channel := Some (ep\<lparr>ep_tls := Some cfg\<rparr>)\<rparr>)))
              else (case dial_error net ep of
                      Some e \<Rightarrow> (Inl e, c)
                    | None \<Rightarrow> (Inr (), c\<lparr>channel := Some ep\<rparr>))))"

definition reset :: "agent_client \<Rightarrow> agent_client" where
  "reset c = c\<lparr>channel := None\<rparr>"

text \<open>
  An RPC runs on the connected channel; \<open>expect("connected")\<close> cannot fire after a successful
  \<open>connect\<close>. \<open>answer\<close> is what the control plane returns on that channel.
\<close>

definition client_register ::
  "transport \<Rightarrow> (channel \<Rightarrow> 'req \<Rightarrow> anyhow + 'resp) \<Rightarrow> 'req \<Rightarrow> (agent_client, anyhow, 'resp) action" where
  "client_register net answer req =
     try_bind (connect net) (\<lambda>_ c. (answer (the (channel c)) req, c))"

record jwt_interceptor =
  ji_jwt :: string

record authed =
  au_channel :: channel
  au_interceptor :: jwt_interceptor

definition authed_client :: "transport \<Rightarrow> (agent_client, anyhow, authed) action" where
  "authed_client net =
     try_bind (connect net) (\<lambda>_ c.
       case jwt c of
         None \<Rightarrow> (Inl (anyhow_msg ''no instance JWT cached; call register() first''), c)
       | Some t \<Rightarrow> (Inr \<lparr>au_channel = the (channel c), au_interceptor = \<lparr>ji_jwt = t\<rparr>\<rparr>, c))"

definition interceptor_call :: "metadata_rules \<Rightarrow> jwt_interceptor \<Rightarrow> metadata \<Rightarrow> status + metadata" where
  "interceptor_call R self req =
     (if md_try_from R (ji_jwt self)
      then Inr (req(''mcpg-instance-token'' \<mapsto> ji_jwt self))
      else Inl \<lparr>st_code = CodeInternal, st_message = ''invalid jwt encoding'', st_metadata = (\<lambda>_. None)\<rparr>)"

text \<open>\<open>heartbeat\<close>: the request the interceptor let through, or the interceptor's status.\<close>

definition client_heartbeat ::
  "metadata_rules \<Rightarrow> transport \<Rightarrow> (channel \<Rightarrow> metadata \<Rightarrow> 'req \<Rightarrow> anyhow + 'resp) \<Rightarrow> 'req
     \<Rightarrow> (agent_client, anyhow, 'resp) action" where
  "client_heartbeat R net answer req =
     try_bind (authed_client net) (\<lambda>a c.
       case interceptor_call R (au_interceptor a) (\<lambda>_. None) of
         Inl st \<Rightarrow> (Inl [StatusCause st (st_message st)], c)
       | Inr md \<Rightarrow> (answer (au_channel a) md req, c))"

section \<open>Properties\<close>

lemma client_ops_sel [simp]:
  "endpoint (set_tls m c) = endpoint c" "channel (set_tls m c) = channel c"
  "jwt (set_tls m c) = jwt c" "tls (set_tls m c) = m"
  "endpoint (set_jwt t c) = endpoint c" "channel (set_jwt t c) = channel c"
  "jwt (set_jwt t c) = Some t" "tls (set_jwt t c) = tls c"
  "endpoint (reset c) = endpoint c" "channel (reset c) = None" "jwt (reset c) = jwt c" "tls (reset c) = tls c"
  by (simp_all add: set_tls_def set_jwt_def reset_def)

lemma connect_frame:
  "endpoint (snd (connect net c)) = endpoint c" "jwt (snd (connect net c)) = jwt c"
  "tls (snd (connect net c)) = tls c"
  by (simp_all add: connect_def Let_def split: option.splits)

lemma connect_Inr:
  assumes "connect net c = (Inr u, c')"
  shows "c' = c\<lparr>channel := channel c'\<rparr> \<and> channel c' \<noteq> None
    \<and> (channel c \<noteq> None \<longrightarrow> c' = c)"
  using assms by (auto simp: connect_def Let_def split: if_splits option.splits)

lemma connect_frame_Inr: "connect net c = (Inr u, c') \<Longrightarrow> jwt c' = jwt c \<and> endpoint c' = endpoint c \<and> tls c' = tls c"
  using connect_frame[of net c] by simp

lemma connect_fresh:
  assumes "connect net c = (Inr u, c')" and "channel c = None"
  shows "channel c' = Some ((base_endpoint (endpoint c))\<lparr>ep_tls :=
           (if starts_with ''https://'' (endpoint c) then Some (tls_cfg (tls c)) else None)\<rparr>)"
  using assms by (auto simp: connect_def Let_def base_endpoint_def split: if_splits option.splits)

lemma connect_Inl: "connect net c = (Inl e, c') \<Longrightarrow> c' = c \<and> channel c = None"
  by (auto simp: connect_def Let_def split: if_splits option.splits)

text \<open>
  C36. TLS material takes effect on the next dial and not before: a client with a live channel keeps
  it, and the identity it was dialled with, whatever \<open>set_tls\<close> installs; after a
  \<open>reset\<close> the next successful \<open>connect\<close> to an \<open>https\<close> endpoint pins the new CA and
  presents the new certificate exactly when both halves of the pair are there; to any other
  endpoint it dials without TLS.
\<close>

theorem tls_takes_effect_after_reset:
  assumes live: "channel c = Some ch"
    and redial: "connect net (reset (set_tls (Some m) c)) = (Inr u, c')"
  shows "connect net (set_tls (Some m) c) = (Inr (), (set_tls (Some m) c)) \<and> channel (set_tls (Some m) c) = Some ch
       \<and> (\<exists>ch'. channel c' = Some ch'
            \<and> ep_tls ch' = (if starts_with ''https://'' (endpoint c)
                            then Some \<lparr>tc_ca = Some (ca_pem m),
                                       tc_identity = (if client_cert_pem m = [] \<or> client_key_pem m = [] then None
                                                      else Some (client_cert_pem m, client_key_pem m)),
                                       tc_domain = server_name m\<rparr>
                            else None)
            \<and> ep_uri ch' = endpoint c)"
  using connect_fresh[OF redial] live by (auto simp: connect_def tls_cfg_def base_endpoint_def)

definition demo_transport :: transport where
  "demo_transport = \<lparr>uri_error = (\<lambda>_. None), tls_error = (\<lambda>_. None), dial_error = (\<lambda>_. None)\<rparr>"

definition demo_client :: agent_client where
  "demo_client = \<lparr>endpoint = ''https://cp'', channel = Some (base_endpoint ''https://cp''), jwt = Some ''j'', tls = None\<rparr>"

definition demo_material :: client_tls_material where
  "demo_material = \<lparr>ca_pem = ''CA'', client_cert_pem = ''C'', client_key_pem = ''K'', server_name = None\<rparr>"

theorem tls_takes_effect_after_reset_witness:
  "channel (set_tls (Some demo_material) demo_client) = Some (base_endpoint ''https://cp'')
   \<and> (\<exists>ch'. channel (snd (connect demo_transport (reset (set_tls (Some demo_material) demo_client)))) = Some ch'
        \<and> ep_tls ch' = Some \<lparr>tc_ca = Some ''CA'', tc_identity = Some (''C'', ''K''), tc_domain = None\<rparr>)"
  using tls_takes_effect_after_reset[of demo_client "base_endpoint ''https://cp''" demo_transport demo_material "()"
      "snd (connect demo_transport (reset (set_tls (Some demo_material) demo_client)))"]
  by (simp add: demo_client_def demo_transport_def demo_material_def connect_def Let_def starts_with_def
      set_tls_def reset_def)

text \<open>
  An authenticated call carries the instance token that was current when the client was built:
  \<open>authed_client\<close> fails exactly when the connect fails or no token is there, it then leaves
  nothing but a possibly established channel, and the interceptor stamps that token on the request's
  \<open>mcpg-instance-token\<close> entry and changes no other, or refuses the call when the token cannot
  be a metadata value.
\<close>

theorem authed_calls_carry_the_token:
  "case authed_client net c of
     (Inl e, c') \<Rightarrow> (fst (connect net c) = Inl e \<or> jwt c = None) \<and> c' = c\<lparr>channel := channel c'\<rparr>
   | (Inr a, c') \<Rightarrow>
       fst (connect net c) = Inr () \<and> jwt c = Some (ji_jwt (au_interceptor a))
     \<and> channel c' = Some (au_channel a) \<and> c' = c\<lparr>channel := channel c'\<rparr>
     \<and> interceptor_call R (au_interceptor a) md
         = (if md_try_from R (ji_jwt (au_interceptor a))
            then Inr (\<lambda>k. if k = ''mcpg-instance-token'' then jwt c else md k)
            else Inl \<lparr>st_code = CodeInternal, st_message = ''invalid jwt encoding'', st_metadata = (\<lambda>_. None)\<rparr>)"
proof (cases "connect net c")
  case (Pair r c')
  show ?thesis
  proof (cases r)
    case (Inl e)
    with Pair connect_Inl[of net c e c'] show ?thesis by (simp add: authed_client_def)
  next
    case (Inr u)
    note ok = connect_Inr[OF Pair[unfolded Inr]]
    have "jwt c' = jwt c" using connect_frame(2)[of net c] Pair by simp
    with ok Pair Inr show ?thesis
      by (auto simp: authed_client_def interceptor_call_def fun_eq_iff split: option.splits)
  qed
qed

end
