(* ===== verification/Creds.thy ===== *)
theory Creds
  imports LicenseDelivery PayloadDek Client
begin

text \<open>
  \<open>src/agent.rs\<close>, the credentials: the file \<open>agent-creds.json\<close> (\<open>StoredCreds\<close>), reading,
  discarding and rotating it, and making its content the credentials the client presents. The
  pretty JSON text, base64 and the timestamp format are parameters.
\<close>

section \<open>Data\<close>

record stored_creds =
  sc_instance_id :: string
  sc_instance_jwt :: string
  sc_cp_endpoint :: string
  sc_issued_at :: datetime
  sc_client_cert_pem :: string
  sc_client_key_pem :: string
  sc_ca_chain_pem :: string
  sc_payload_dek_b64 :: string
  sc_payload_dek_version :: u32

record creds_packages =
  cr_text :: json_text
  cr_b64 :: base64
  cr_dt_print :: "datetime \<Rightarrow> string"
  cr_dt_parse :: "string \<Rightarrow> datetime option"

datatype creds_error = CredsIo io_error | CredsJson

text \<open>The message \<open>CredentialRotation\<close>.\<close>

record credential_rotation =
  rot_instance_jwt :: string
  rot_client_cert_pem :: string
  rot_client_key_pem :: string
  rot_payload_dek :: bytes
  rot_payload_dek_version :: u32

definition creds_to_json :: "creds_packages \<Rightarrow> stored_creds \<Rightarrow> json" where
  "creds_to_json P c =
     JObj [(''instance_id'', JStr (sc_instance_id c)),
           (''instance_jwt'', JStr (sc_instance_jwt c)),
           (''cp_endpoint'', JStr (sc_cp_endpoint c)),
           (''issued_at'', JStr (cr_dt_print P (sc_issued_at c))),
           (''client_cert_pem'', JStr (sc_client_cert_pem c)),
           (''client_key_pem'', JStr (sc_client_key_pem c)),
           (''ca_chain_pem'', JStr (sc_ca_chain_pem c)),
           (''payload_dek_b64'', JStr (sc_payload_dek_b64 c)),
           (''payload_dek_version'', ser_u32 (sc_payload_dek_version c))]"

definition creds_of_json :: "creds_packages \<Rightarrow> json \<Rightarrow> stored_creds option" where
  "creds_of_json P v =
     Option.bind (struct_fields [''instance_id'', ''instance_jwt'', ''cp_endpoint'', ''issued_at'',
                                 ''client_cert_pem'', ''client_key_pem'', ''ca_chain_pem'',
                                 ''payload_dek_b64'', ''payload_dek_version''] v) (\<lambda>m.
     Option.bind (required de_string m ''instance_id'') (\<lambda>iid.
     Option.bind (required de_string m ''instance_jwt'') (\<lambda>j.
     Option.bind (required de_string m ''cp_endpoint'') (\<lambda>e.
     Option.bind (required (\<lambda>w. Option.bind (de_string w) (cr_dt_parse P)) m ''issued_at'') (\<lambda>t.
     Option.bind (defaulted [] de_string m ''client_cert_pem'') (\<lambda>cert.
     Option.bind (defaulted [] de_string m ''client_key_pem'') (\<lambda>key.
     Option.bind (defaulted [] de_string m ''ca_chain_pem'') (\<lambda>ca.
     Option.bind (defaulted [] de_string m ''payload_dek_b64'') (\<lambda>dek.
     Option.bind (defaulted 0 de_u32 m ''payload_dek_version'') (\<lambda>ver.
     Some \<lparr>sc_instance_id = iid, sc_instance_jwt = j, sc_cp_endpoint = e, sc_issued_at = t,
           sc_client_cert_pem = cert, sc_client_key_pem = key, sc_ca_chain_pem = ca,
           sc_payload_dek_b64 = dek, sc_payload_dek_version = ver\<rparr>))))))))))"

section \<open>The credentials file\<close>

definition creds_path :: "path \<Rightarrow> path" where
  "creds_path state_dir = join state_dir ''agent-creds.json''"

definition read_stored_creds :: "creds_packages \<Rightarrow> io \<Rightarrow> path \<Rightarrow> (fs, creds_error, stored_creds) action" where
  "read_stored_creds P io state_dir =
     try_bind (map_err CredsIo (fs_read io (creds_path state_dir))) (\<lambda>bytes s.
       (ok_or CredsJson (Option.bind (json_parse (cr_text P) bytes) (creds_of_json P)), s))"

text \<open>Best effort: a failed removal is logged and nothing else.\<close>

definition discard_stored_creds :: "io \<Rightarrow> path \<Rightarrow> fs \<Rightarrow> fs" where
  "discard_stored_creds io state_dir s = snd (fs_remove io (creds_path state_dir) s)"

definition rotate_creds :: "creds_packages \<Rightarrow> datetime \<Rightarrow> credential_rotation \<Rightarrow> stored_creds \<Rightarrow> stored_creds" where
  "rotate_creds P now r c =
     (let c = c\<lparr>sc_instance_jwt := rot_instance_jwt r, sc_issued_at := now\<rparr>;
          c = (if rot_client_cert_pem r \<noteq> [] then c\<lparr>sc_client_cert_pem := rot_client_cert_pem r\<rparr> else c);
          c = (if rot_client_key_pem r \<noteq> [] then c\<lparr>sc_client_key_pem := rot_client_key_pem r\<rparr> else c)
      in if rot_payload_dek r \<noteq> [] \<and> rot_payload_dek_version r \<noteq> 0
         then c\<lparr>sc_payload_dek_b64 := b64_encode (cr_b64 P) (rot_payload_dek r),
                sc_payload_dek_version := rot_payload_dek_version r\<rparr>
         else c)"

definition persist_rotated_creds ::
  "creds_packages \<Rightarrow> io \<Rightarrow> datetime \<Rightarrow> path \<Rightarrow> credential_rotation \<Rightarrow> (fs, creds_error, unit) action" where
  "persist_rotated_creds P io now state_dir r =
     try_bind (read_stored_creds P io state_dir) (\<lambda>creds.
       let new_bytes = json_print (cr_text P) (creds_to_json P (rotate_creds P now r creds));
           tmp = with_extension (creds_path state_dir) ''json.tmp''
       in try_bind (map_err CredsIo (fs_write io tmp new_bytes)) (\<lambda>_ s.
            map_err CredsIo (fs_rename io tmp (creds_path state_dir)) (snd (fs_chmod io tmp mode_600 s))))"

section \<open>Installing credentials\<close>

text \<open>The slot \<open>Arc<ArcSwap<Option<DekHandle>>>\<close> of the runner is an \<open>option\<close>.\<close>

definition install_payload_dek_from_creds ::
  "creds_packages \<Rightarrow> stored_creds \<Rightarrow> dek_handle option \<Rightarrow> dek_handle option" where
  "install_payload_dek_from_creds P creds slot =
     (if sc_payload_dek_b64 creds = [] then slot
      else case b64_decode (cr_b64 P) (sc_payload_dek_b64 creds) of
             None \<Rightarrow> slot
           | Some raw \<Rightarrow>
               (case from_proto raw (sc_payload_dek_version creds) of
                  Inr (Some h) \<Rightarrow> Some h
                | Inr None \<Rightarrow> slot
                | Inl _ \<Rightarrow> slot))"

definition creds_tls :: "stored_creds \<Rightarrow> client_tls_material" where
  "creds_tls creds =
     \<lparr>ca_pem = sc_ca_chain_pem creds, client_cert_pem = sc_client_cert_pem creds,
      client_key_pem = sc_client_key_pem creds, server_name = None\<rparr>"

definition install_creds ::
  "creds_packages \<Rightarrow> stored_creds \<Rightarrow> agent_client \<times> dek_handle option \<Rightarrow> agent_client \<times> dek_handle option" where
  "install_creds P creds = (\<lambda>(client, slot).
     let client = set_jwt (sc_instance_jwt creds) client;
         slot = install_payload_dek_from_creds P creds slot
     in if sc_client_cert_pem creds \<noteq> [] \<and> sc_ca_chain_pem creds \<noteq> []
        then (reset (set_tls (Some (creds_tls creds)) client), slot)
        else (client, slot))"

section \<open>The credentials file is an atomic cell\<close>

lemma creds_json_roundtrip:
  "cr_dt_parse P (cr_dt_print P (sc_issued_at c)) = Some (sc_issued_at c) \<Longrightarrow>
     creds_of_json P (creds_to_json P c) = Some c"
  by (simp add: creds_of_json_def creds_to_json_def struct_fields_obj de_field_simps)

lemma creds_tmp_path: "with_extension (creds_path dir) ''json.tmp'' = join dir ''agent-creds.json.tmp''"
  by (simp add: creds_path_def join_def with_extension_def file_stem_def)

lemma creds_tmp_differs: "with_extension (creds_path dir) ''json.tmp'' \<noteq> creds_path dir"
  unfolding creds_tmp_path by (simp add: creds_path_def join_def)

text \<open>The credentials a healthy read finds, from the file's content alone.\<close>

definition creds_in :: "creds_packages \<Rightarrow> bytes option \<Rightarrow> stored_creds option" where
  "creds_in P bs = Option.bind bs (\<lambda>b. Option.bind (json_parse (cr_text P) b) (creds_of_json P))"

lemma read_stored_creds_Inr:
  "read_stored_creds P io dir s = (Inr c, s') \<Longrightarrow> s' = s \<and> creds_in P (file_content (creds_path dir) s) = Some c"
  by (auto simp: read_stored_creds_def try_bind_def map_err_def fs_read_def ok_or_def creds_in_def
      split: option.splits if_splits)

lemma read_stored_creds_state [simp]: "snd (read_stored_creds P io dir s) = s"
  by (simp add: read_stored_creds_def try_bind_def map_err_def fs_read_def split: option.splits)

lemma read_stored_creds_content:
  assumes "io (OpRead (creds_path dir)) = Works" and "creds_in P (file_content (creds_path dir) s) = Some c"
  shows "read_stored_creds P io dir s = (Inr c, s)"
  using assms
  by (auto simp: read_stored_creds_def try_bind_def map_err_def fs_read_def ok_or_def creds_in_def
      split: Option.bind_splits option.splits)

definition rotated_content ::
  "creds_packages \<Rightarrow> io \<times> datetime \<times> credential_rotation \<Rightarrow> bytes option \<Rightarrow> bytes option" where
  "rotated_content P = (\<lambda>(io, now, r) bs.
     case creds_in P bs of
       None \<Rightarrow> bs
     | Some c \<Rightarrow> Some (json_print (cr_text P) (creds_to_json P (rotate_creds P now r c))))"

lemma replaces_map_err: "replaces p bs s (m s) \<Longrightarrow> replaces p bs s (map_err g m s)"
  by (cases "m s"; cases "fst (m s)") (auto simp: replaces_def)

lemma persist_write_replaces:
  fixes dir :: path
  defines "tmp \<equiv> with_extension (creds_path dir) ''json.tmp''"
  shows "replaces (creds_path dir) bs s (try_bind (map_err CredsIo (fs_write io tmp bs)) (\<lambda>_ s.
           map_err CredsIo (fs_rename io tmp (creds_path dir)) (snd (fs_chmod io tmp mode_600 s))) s)"
proof (rule replaces_before)
  have tmp: "tmp \<noteq> creds_path dir" unfolding tmp_def by (rule creds_tmp_differs)
  then show "files (snd (map_err CredsIo (fs_write io tmp bs) s)) (creds_path dir) = files s (creds_path dir)"
    by (simp add: fs_write_frame)
  fix u s' assume "map_err CredsIo (fs_write io tmp bs) s = (Inr u, s')"
  then have "s' = put_file tmp bs s" by (auto simp: map_err_Inr_iff dest: fs_write_Inr)
  then have "file_content tmp (snd (fs_chmod io tmp mode_600 s')) = Some bs"
    using fs_chmod_content[of io tmp mode_600 s' tmp] by simp
  from replaces_rename[OF tmp this, of io]
  have "replaces (creds_path dir) bs (snd (fs_chmod io tmp mode_600 s'))
      (map_err CredsIo (fs_rename io tmp (creds_path dir)) (snd (fs_chmod io tmp mode_600 s')))"
    by (rule replaces_map_err)
  moreover have "files (snd (fs_chmod io tmp mode_600 s')) (creds_path dir) = files s' (creds_path dir)"
    using tmp by (simp add: fs_chmod_frame)
  ultimately show "replaces (creds_path dir) bs s'
      (map_err CredsIo (fs_rename io tmp (creds_path dir)) (snd (fs_chmod io tmp mode_600 s')))"
    by (simp add: replaces_def)
qed

definition rotation_step :: "creds_packages \<Rightarrow> path \<Rightarrow> io \<times> datetime \<times> credential_rotation \<Rightarrow> (fs, creds_error, unit) action" where
  "rotation_step P dir = (\<lambda>(io, now, r). persist_rotated_creds P io now dir r)"

lemma rotation_step_effect:
  "fst (rotation_step P dir x s) = Inr u \<Longrightarrow>
     file_content (creds_path dir) (snd (rotation_step P dir x s)) = rotated_content P x (file_content (creds_path dir) s)"
  "fst (rotation_step P dir x s) = Inl e \<Longrightarrow>
     file_content (creds_path dir) (snd (rotation_step P dir x s)) = file_content (creds_path dir) s"
proof -
  obtain io now r where x: "x = (io, now, r)" by (cases x) auto
  obtain res where read: "read_stored_creds P io dir s = (res, s)"
    using read_stored_creds_state[of P io dir s] by (cases "read_stored_creds P io dir s") auto
  have step: "rotation_step P dir x s = (case res of Inl e \<Rightarrow> (Inl e, s)
      | Inr c \<Rightarrow> try_bind (map_err CredsIo (fs_write io (with_extension (creds_path dir) ''json.tmp'')
            (json_print (cr_text P) (creds_to_json P (rotate_creds P now r c))))) (\<lambda>_ s.
           map_err CredsIo (fs_rename io (with_extension (creds_path dir) ''json.tmp'') (creds_path dir))
             (snd (fs_chmod io (with_extension (creds_path dir) ''json.tmp'') mode_600 s))) s)"
    using read by (simp add: rotation_step_def persist_rotated_creds_def x try_bind_def Let_def split: sum.splits)
  have image: "res = Inr c \<Longrightarrow> rotated_content P x (file_content (creds_path dir) s)
      = Some (json_print (cr_text P) (creds_to_json P (rotate_creds P now r c)))" for c
    using read_stored_creds_Inr[of P io dir s c s] read by (simp add: rotated_content_def x)
  note rep = persist_write_replaces[of dir _ s io]
  show "fst (rotation_step P dir x s) = Inr u \<Longrightarrow>
     file_content (creds_path dir) (snd (rotation_step P dir x s)) = rotated_content P x (file_content (creds_path dir) s)"
    using image replaces_ok[OF rep] by (auto simp: step split: sum.splits)
  show "fst (rotation_step P dir x s) = Inl e \<Longrightarrow>
     file_content (creds_path dir) (snd (rotation_step P dir x s)) = file_content (creds_path dir) s"
    using replaces_err[OF rep] by (auto simp: step split: sum.splits)
qed

interpretation creds_cell: atomic_cell "\<lambda>_. True" "file_content (creds_path dir)" "rotation_step P dir"
  "rotated_content P" for P dir
  by unfold_locales (simp_all add: rotation_step_effect)

text \<open>The abstract register: the credentials themselves, rotated by each successful step.\<close>

definition rotate_by :: "creds_packages \<Rightarrow> io \<times> datetime \<times> credential_rotation \<Rightarrow> stored_creds \<Rightarrow> stored_creds" where
  "rotate_by P = (\<lambda>(io, now, r). rotate_creds P now r)"

definition creds_survive :: "creds_packages \<Rightarrow> stored_creds \<Rightarrow> bool" where
  "creds_survive P c \<longleftrightarrow>
     json_reads_back (cr_text P) (creds_to_json P c)
   \<and> cr_dt_parse P (cr_dt_print P (sc_issued_at c)) = Some (sc_issued_at c)"

lemma creds_in_print: "creds_survive P c \<Longrightarrow> creds_in P (Some (json_print (cr_text P) (creds_to_json P c))) = Some c"
  by (simp add: creds_survive_def creds_in_def json_reads_back_def creds_json_roundtrip)

lemma fold_rotated_content:
  assumes "creds_in P bs = Some c" and "\<forall>ys. prefix ys xs \<longrightarrow> ys \<noteq> [] \<longrightarrow> creds_survive P (fold (rotate_by P) ys c)"
  shows "creds_in P (fold (rotated_content P) xs bs) = Some (fold (rotate_by P) xs c)"
  using assms
proof (induction xs arbitrary: bs c)
  case (Cons x xs)
  have "creds_survive P (rotate_by P x c)" using Cons.prems(2)[rule_format, of "[x]"] by simp
  then have "creds_in P (rotated_content P x bs) = Some (rotate_by P x c)"
    using Cons.prems(1) by (cases x) (simp add: rotated_content_def rotate_by_def creds_in_print)
  moreover have "\<forall>ys. prefix ys xs \<longrightarrow> ys \<noteq> [] \<longrightarrow> creds_survive P (fold (rotate_by P) ys (rotate_by P x c))"
  proof (intro allI impI)
    fix ys assume "prefix ys xs"
    then show "creds_survive P (fold (rotate_by P) ys (rotate_by P x c))"
      using Cons.prems(2)[rule_format, of "x # ys"] by simp
  qed
  ultimately show ?case using Cons.IH by simp
qed simp

lemma rotate_creds_keeps:
  "sc_instance_id (rotate_creds P now r c) = sc_instance_id c"
  "sc_cp_endpoint (rotate_creds P now r c) = sc_cp_endpoint c"
  "sc_ca_chain_pem (rotate_creds P now r c) = sc_ca_chain_pem c"
  "sc_instance_jwt (rotate_creds P now r c) = rot_instance_jwt r"
  by (simp_all add: rotate_creds_def Let_def)

lemma rotate_creds_dek:
  "rot_payload_dek r \<noteq> [] \<Longrightarrow> rot_payload_dek_version r \<noteq> 0 \<Longrightarrow>
     sc_payload_dek_b64 (rotate_creds P now r c) = b64_encode (cr_b64 P) (rot_payload_dek r)
   \<and> sc_payload_dek_version (rotate_creds P now r c) = rot_payload_dek_version r"
  by (simp add: rotate_creds_def Let_def)

lemma fold_rotate_keeps:
  "sc_instance_id (fold (rotate_by P) xs c) = sc_instance_id c
   \<and> sc_cp_endpoint (fold (rotate_by P) xs c) = sc_cp_endpoint c
   \<and> sc_ca_chain_pem (fold (rotate_by P) xs c) = sc_ca_chain_pem c
   \<and> sc_instance_jwt (fold (rotate_by P) xs c)
       = (if xs = [] then sc_instance_jwt c else rot_instance_jwt (snd (snd (last xs))))"
  by (induction xs arbitrary: c) (auto simp: rotate_by_def rotate_creds_keeps split_def)

section \<open>Properties\<close>

text \<open>
  C11. Credential rotation survives crashes: after any series of rotation pushes, each persisted
  with its own failures, the credentials file reads as the original credentials with exactly the
  successfully persisted rotations applied in order. The token on disk is that of the last of them,
  and the instance id, the endpoint and the CA chain never change.
\<close>

theorem rotations_refine_a_register:
  assumes "creds_in P (file_content (creds_path dir) s) = Some c"
    and "\<forall>ys. subseq ys rotations \<longrightarrow> creds_survive P (fold (rotate_by P) ys c)"
    and "io (OpRead (creds_path dir)) = Works"
  shows "\<exists>done c'. subseq done rotations
     \<and> fst (cell_run (rotation_step P dir) rotations s) = done
     \<and> fst (read_stored_creds P io dir (snd (cell_run (rotation_step P dir) rotations s))) = Inr c'
     \<and> c' = fold (rotate_by P) done c
     \<and> sc_instance_jwt c' = (if done = [] then sc_instance_jwt c else rot_instance_jwt (snd (snd (last done))))
     \<and> sc_instance_id c' = sc_instance_id c \<and> sc_cp_endpoint c' = sc_cp_endpoint c
     \<and> sc_ca_chain_pem c' = sc_ca_chain_pem c"
proof -
  obtain ys t where run: "cell_run (rotation_step P dir) rotations s = (ys, t)"
    by (cases "cell_run (rotation_step P dir) rotations s")
  have sub: "subseq ys rotations" using cell_run_subseq[of "rotation_step P dir" rotations s] run by simp
  have "file_content (creds_path dir) t = fold (rotated_content P) ys (file_content (creds_path dir) s)"
    using creds_cell.run_refines_register[where P = P and dir = dir and xs = rotations and s = s] run by simp
  moreover have "\<forall>zs. prefix zs ys \<longrightarrow> zs \<noteq> [] \<longrightarrow> creds_survive P (fold (rotate_by P) zs c)"
    using assms(2) sub prefix_imp_subseq subseq_order.order_trans by blast
  ultimately have "creds_in P (file_content (creds_path dir) t) = Some (fold (rotate_by P) ys c)"
    using fold_rotated_content[OF assms(1)] by simp
  from read_stored_creds_content[of io dir, OF assms(3) this] fold_rotate_keeps[of P ys c] sub run show ?thesis
    by auto
qed

definition demo_creds :: stored_creds where
  "demo_creds =
     \<lparr>sc_instance_id = ''i'', sc_instance_jwt = ''j1'', sc_cp_endpoint = ''https://cp'',
      sc_issued_at = DateTime 0 0, sc_client_cert_pem = ''C'', sc_client_key_pem = ''K'',
      sc_ca_chain_pem = ''CA'', sc_payload_dek_b64 = [], sc_payload_dek_version = 0\<rparr>"

definition demo_rotation :: credential_rotation where
  "demo_rotation =
     \<lparr>rot_instance_jwt = ''j2'', rot_client_cert_pem = [], rot_client_key_pem = [],
      rot_payload_dek = [], rot_payload_dek_version = 0\<rparr>"

definition demo_codec :: "json list \<Rightarrow> creds_packages" where
  "demo_codec docs =
     \<lparr>cr_text = table_text docs, cr_b64 = demo_base64, cr_dt_print = (\<lambda>_. ''t''),
      cr_dt_parse = (\<lambda>_. Some (DateTime 0 0))\<rparr>"

definition demo_creds_packages :: creds_packages where
  "demo_creds_packages =
     demo_codec (map (creds_to_json (demo_codec [])) [demo_creds, demo_creds\<lparr>sc_instance_jwt := ''j2''\<rparr>])"

definition demo_creds_fs :: fs where
  "demo_creds_fs =
     \<lparr>files = [[''s'', ''agent-creds.json'']
         \<mapsto> \<lparr>content = json_print (cr_text demo_creds_packages) (creds_to_json demo_creds_packages demo_creds),
             perm = mode_600\<rparr>],
      dirs = {[''s'']}, create_perm = 420\<rparr>"

lemma demo_creds_json: "creds_to_json demo_creds_packages c = creds_to_json (demo_codec []) c"
  by (simp add: creds_to_json_def demo_creds_packages_def demo_codec_def)

lemma demo_creds_survive:
  "creds_survive demo_creds_packages demo_creds"
  "creds_survive demo_creds_packages (demo_creds\<lparr>sc_instance_jwt := ''j2''\<rparr>)"
  unfolding creds_survive_def demo_creds_json
  by (simp_all add: demo_creds_packages_def demo_codec_def table_text_reads_back demo_creds_def)

lemma demo_rotate: "rotate_creds demo_creds_packages (DateTime 0 0) demo_rotation demo_creds = demo_creds\<lparr>sc_instance_jwt := ''j2''\<rparr>"
  by (simp add: rotate_creds_def demo_rotation_def demo_creds_def)

theorem rotations_refine_a_register_witness:
  "\<exists>done c'. subseq done [(all_works, DateTime 0 0, demo_rotation)]
     \<and> fst (cell_run (rotation_step demo_creds_packages [''s'']) [(all_works, DateTime 0 0, demo_rotation)] demo_creds_fs) = done
     \<and> fst (read_stored_creds demo_creds_packages all_works [''s'']
          (snd (cell_run (rotation_step demo_creds_packages [''s'']) [(all_works, DateTime 0 0, demo_rotation)] demo_creds_fs))) = Inr c'
     \<and> c' = fold (rotate_by demo_creds_packages) done demo_creds
     \<and> sc_instance_jwt c' = (if done = [] then sc_instance_jwt demo_creds else rot_instance_jwt (snd (snd (last done))))
     \<and> sc_instance_id c' = sc_instance_id demo_creds \<and> sc_cp_endpoint c' = sc_cp_endpoint demo_creds
     \<and> sc_ca_chain_pem c' = sc_ca_chain_pem demo_creds"
proof (rule rotations_refine_a_register)
  show "creds_in demo_creds_packages (file_content (creds_path [''s'']) demo_creds_fs) = Some demo_creds"
    using creds_in_print[OF demo_creds_survive(1)] by (simp add: demo_creds_fs_def creds_path_def join_def)
  have "ys = [] \<or> ys = [x]" if "subseq ys [x]" for ys :: "'a list" and x
    using that by (cases ys) (auto simp: subseq_Cons2_iff split: if_splits)
  then show "\<forall>ys. subseq ys [(all_works, DateTime 0 0, demo_rotation)]
      \<longrightarrow> creds_survive demo_creds_packages (fold (rotate_by demo_creds_packages) ys demo_creds)"
    using demo_creds_survive by (fastforce simp: rotate_by_def demo_rotate)
qed simp

text \<open>
  A data key that arrives in a rotation and is usable survives a restart: once persisted, the
  handle a fresh process installs from the file is the one the running process switched to.
\<close>

theorem rotated_dek_survives_restart:
  assumes "b64_roundtrip (cr_b64 P)" and "from_proto (rot_payload_dek r) (rot_payload_dek_version r) = Inr (Some h)"
    and "b64_encode (cr_b64 P) (rot_payload_dek r) \<noteq> []"
  shows "install_payload_dek_from_creds P (rotate_creds P now r c) slot = Some h"
proof -
  have "rot_payload_dek r \<noteq> []" "rot_payload_dek_version r \<noteq> 0"
    using assms(2) by (auto simp: from_proto_Some_iff)
  from assms rotate_creds_dek[OF this, of P now c] show ?thesis
    by (simp add: install_payload_dek_from_creds_def b64_roundtrip_def)
qed

theorem rotated_dek_survives_restart_witness:
  "install_payload_dek_from_creds demo_creds_packages
     (rotate_creds demo_creds_packages (DateTime 0 0)
        (demo_rotation\<lparr>rot_payload_dek := replicate 32 9, rot_payload_dek_version := 2\<rparr>) demo_creds) None
   = Some \<lparr>dh_raw = replicate 32 9, dh_version = 2\<rparr>"
proof (rule rotated_dek_survives_restart)
  show "b64_roundtrip (cr_b64 demo_creds_packages)"
    by (simp add: demo_creds_packages_def demo_codec_def demo_parameters_ok)
  show "b64_encode (cr_b64 demo_creds_packages)
      (rot_payload_dek (demo_rotation\<lparr>rot_payload_dek := replicate 32 9, rot_payload_dek_version := 2\<rparr>)) \<noteq> []"
    by (simp add: demo_creds_packages_def demo_codec_def demo_base64_def)
qed (simp add: from_proto_def)

text \<open>
  A data key of the wrong length is refused in memory, which keeps the previous handle, but it
  replaces the good key in the credentials file: the process that starts from the file afterwards
  has no handle and source-side encryption is lost.
\<close>

theorem refused_dek_replaces_the_stored_one:
  assumes "b64_roundtrip (cr_b64 P)" and "rot_payload_dek r \<noteq> []" and "length (rot_payload_dek r) \<noteq> 32"
    and "rot_payload_dek_version r \<noteq> 0"
  shows "from_proto (rot_payload_dek r) (rot_payload_dek_version r) = Inl (BadKeyLen (length (rot_payload_dek r)))
       \<and> install_payload_dek_from_creds P (rotate_creds P now r c) None = None"
  using assms rotate_creds_dek[OF assms(2,4), of P now c]
  by (simp add: from_proto_def install_payload_dek_from_creds_def b64_roundtrip_def)

theorem refused_dek_replaces_the_stored_one_witness:
  "install_payload_dek_from_creds demo_creds_packages
     (demo_creds\<lparr>sc_payload_dek_b64 := hex_encode (replicate 32 9), sc_payload_dek_version := 1\<rparr>) None
     = Some \<lparr>dh_raw = replicate 32 9, dh_version = 1\<rparr>
   \<and> install_payload_dek_from_creds demo_creds_packages
       (rotate_creds demo_creds_packages (DateTime 0 0)
          (demo_rotation\<lparr>rot_payload_dek := [1, 2, 3], rot_payload_dek_version := 2\<rparr>)
          (demo_creds\<lparr>sc_payload_dek_b64 := hex_encode (replicate 32 9), sc_payload_dek_version := 1\<rparr>)) None = None"
proof
  show "install_payload_dek_from_creds demo_creds_packages
     (demo_creds\<lparr>sc_payload_dek_b64 := hex_encode (replicate 32 9), sc_payload_dek_version := 1\<rparr>) None
     = Some \<lparr>dh_raw = replicate 32 9, dh_version = 1\<rparr>"
    by (simp add: install_payload_dek_from_creds_def demo_creds_packages_def demo_codec_def demo_base64_def
        hex_decode_encode from_proto_def)
  show "install_payload_dek_from_creds demo_creds_packages
       (rotate_creds demo_creds_packages (DateTime 0 0)
          (demo_rotation\<lparr>rot_payload_dek := [1, 2, 3], rot_payload_dek_version := 2\<rparr>)
          (demo_creds\<lparr>sc_payload_dek_b64 := hex_encode (replicate 32 9), sc_payload_dek_version := 1\<rparr>)) None = None"
    using refused_dek_replaces_the_stored_one[of demo_creds_packages
        "demo_rotation\<lparr>rot_payload_dek := [1, 2, 3], rot_payload_dek_version := 2\<rparr>"]
    by (simp add: demo_creds_packages_def demo_codec_def demo_parameters_ok)
qed

end
