(* ===== verification/Backoff.thy ===== *)
theory Backoff
  imports Prelude Complex_Main "HOL-Library.Log_Nat"
begin

text \<open>
  \<open>src/backoff.rs\<close>: exponential backoff with jitter. The jitter is computed in \<open>f64\<close>, so
  the first part of this theory models the double operations the code performs (conversion,
  division, addition and multiplication of non-negative values, each rounded to nearest even at 53
  bits) and the conversion back to a \<open>Duration\<close>, which panics on overflow. The random factor is
  an argument. The values that occur are 0 or lie between one nanosecond and \<open>2 ^ 66\<close>, far
  inside the normal range of the format.
\<close>

section \<open>Doubles\<close>

definition round_half_even :: "rat \<Rightarrow> int" where
  "round_half_even y =
     (let f = \<lfloor>y\<rfloor>; r = y - of_int f
      in if r < 1 / 2 then f else if r > 1 / 2 then f + 1 else if even f then f else f + 1)"

text \<open>The binary exponent of a positive rational.\<close>

definition log2_floor :: "rat \<Rightarrow> int" where
  "log2_floor x =
     (let (p, q) = quotient_of x;
          k = int (floorlog 2 (nat p)) - int (floorlog 2 (nat q))
      in if 2 powi k \<le> x then k else k - 1)"

definition f64_round :: "rat \<Rightarrow> rat" where
  "f64_round x =
     (if x = 0 then 0
      else let ulp = 2 powi (log2_floor x - 52) in of_int (round_half_even (x / ulp)) * ulp)"

definition as_secs_f64 :: "duration \<Rightarrow> rat" where
  "as_secs_f64 d =
     f64_round (f64_round (of_nat (d div 1000000000)) + f64_round (of_nat (d mod 1000000000) / 1000000000))"

definition f64_mul :: "rat \<Rightarrow> rat \<Rightarrow> rat" where
  "f64_mul a b = f64_round (a * b)"

text \<open>\<open>Duration::from_secs_f64\<close>: to the nearest nanosecond; \<open>None\<close> is its panic.\<close>

definition from_secs_f64 :: "rat \<Rightarrow> duration option" where
  "from_secs_f64 x =
     (if 0 \<le> x \<and> x < 2 ^ 64 then Some (nat (round_half_even (x * 1000000000))) else None)"

section \<open>Backoff\<close>

record backoff =
  initial :: duration
  max_delay :: duration
  jitter :: bool
  attempt :: u32

definition backoff_new :: "duration \<Rightarrow> duration \<Rightarrow> bool \<Rightarrow> backoff" where
  "backoff_new i m j = \<lparr>initial = i, max_delay = m, jitter = j, attempt = 0\<rparr>"

text \<open>The delay before jitter.\<close>

definition bounded_delay :: "backoff \<Rightarrow> duration" where
  "bounded_delay b =
     (let ex = min (attempt b) 20;
          raw = saturating_mul (initial b) (2 ^ unat ex)
      in min raw (max_delay b))"

definition next_delay :: "rat \<Rightarrow> backoff \<Rightarrow> duration option \<times> backoff" where
  "next_delay factor b =
     (let bounded = bounded_delay b
      in case (if jitter b then from_secs_f64 (f64_mul (as_secs_f64 bounded) factor) else Some bounded) of
           None \<Rightarrow> (None, b)
         | Some with_jitter \<Rightarrow> (Some with_jitter, b\<lparr>attempt := sat_add (attempt b) 1\<rparr>))"

definition backoff_reset :: "backoff \<Rightarrow> backoff" where
  "backoff_reset b = b\<lparr>attempt := 0\<rparr>"

fun next_delays :: "rat list \<Rightarrow> backoff \<Rightarrow> duration option list \<times> backoff" where
  "next_delays [] b = ([], b)"
| "next_delays (f # fs) b =
     (let (d, b') = next_delay f b; (ds, b'') = next_delays fs b' in (d # ds, b''))"

section \<open>Rounding errors\<close>

lemma round_half_even_error: "\<bar>of_int (round_half_even y) - y\<bar> \<le> 1 / 2"
  unfolding round_half_even_def Let_def
  by (auto simp: abs_if) linarith+

lemma round_half_even_int [simp]: "round_half_even (of_int n) = n"
  by (simp add: round_half_even_def)

lemma round_half_even_nonneg: "0 \<le> y \<Longrightarrow> 0 \<le> round_half_even y"
  by (auto simp: round_half_even_def Let_def)

lemma floorlog_nat_bounds:
  "0 < n \<Longrightarrow> (2::rat) powi (int (floorlog 2 n) - 1) \<le> of_nat n \<and> of_nat n < (2::rat) powi int (floorlog 2 n)"
proof -
  assume n: "0 < n"
  then have b: "2 ^ (floorlog 2 n - 1) \<le> n" "n < 2 ^ floorlog 2 n"
    using floorlog_bounds[where b = 2 and x = n] by simp_all
  have pos: "0 < floorlog 2 n" using n by (simp add: floorlog_def)
  have "(2::rat) ^ (floorlog 2 n - 1) \<le> of_nat n"
    using b(1) by (metis of_nat_le_iff of_nat_numeral of_nat_power)
  moreover have "of_nat n < (2::rat) ^ floorlog 2 n"
    using b(2) by (metis of_nat_less_iff of_nat_numeral of_nat_power)
  ultimately show ?thesis using pos
    by (simp add: power_int_def nat_diff_distrib' of_nat_diff)
qed

lemma log2_floor_bounds:
  assumes "0 < x"
  shows "2 powi log2_floor x \<le> x" and "x < 2 powi (log2_floor x + 1)"
proof -
  obtain p q where pq: "quotient_of x = (p, q)" by fastforce
  then have q: "0 < q" and x: "x = of_int p / of_int q"
    by (auto intro: quotient_of_denom_pos quotient_of_div)
  with assms have p: "0 < p" by (simp add: zero_less_divide_iff)
  let ?a = "int (floorlog 2 (nat p))" and ?b = "int (floorlog 2 (nat q))"
  have P: "(2::rat) powi (?a - 1) \<le> of_int p" "of_int p < (2::rat) powi ?a"
    and Q: "(2::rat) powi (?b - 1) \<le> of_int q" "of_int q < (2::rat) powi ?b"
    using floorlog_nat_bounds[of "nat p"] floorlog_nat_bounds[of "nat q"] p q by simp_all
  have "x < 2 powi ?a / 2 powi (?b - 1)"
    unfolding x using P(2) Q p q by (intro frac_less) auto
  then have hi: "x < 2 powi (?a - ?b + 1)"
    by (simp add: power_int_diff power_int_add algebra_simps)
  have "2 powi (?a - 1) / 2 powi ?b \<le> x"
    unfolding x using P(1) Q p q by (intro frac_le) auto
  then have lo: "2 powi (?a - ?b - 1) \<le> x"
    by (simp add: power_int_diff power_int_add algebra_simps)
  show "2 powi log2_floor x \<le> x" "x < 2 powi (log2_floor x + 1)"
    using hi lo by (auto simp: log2_floor_def pq Let_def)
qed

lemma f64_round_error: "0 \<le> x \<Longrightarrow> \<bar>f64_round x - x\<bar> \<le> x / 2 ^ 53"
proof (cases "x = 0")
  case False
  assume "0 \<le> x"
  with False have x: "0 < x" by simp
  let ?u = "(2::rat) powi (log2_floor x - 52)"
  have u: "0 < ?u" by simp
  have "f64_round x - x = (of_int (round_half_even (x / ?u)) - x / ?u) * ?u"
    using False u by (simp add: f64_round_def Let_def left_diff_distrib)
  then have "\<bar>f64_round x - x\<bar> = \<bar>of_int (round_half_even (x / ?u)) - x / ?u\<bar> * ?u"
    using u by (simp add: abs_mult)
  also have "\<dots> \<le> 1 / 2 * ?u" using round_half_even_error u by (intro mult_right_mono) auto
  also have "\<dots> = 2 powi log2_floor x / 2 ^ 53" by (simp add: power_int_diff)
  also have "\<dots> \<le> x / 2 ^ 53" using log2_floor_bounds(1)[OF x] by (simp add: divide_right_mono)
  finally show ?thesis .
qed (simp add: f64_round_def)


lemma f64_round_nonneg: "0 \<le> x \<Longrightarrow> 0 \<le> f64_round x"
  by (simp add: f64_round_def Let_def round_half_even_nonneg)

lemma abs_error_add: "\<bar>a' - a\<bar> \<le> a / c \<Longrightarrow> \<bar>b' - b\<bar> \<le> b / c \<Longrightarrow> \<bar>a' + b' - (a + b)\<bar> \<le> (a + b) / c"
  for a b c :: rat
  unfolding add_divide_distrib by linarith

lemma abs_error_mult: "\<bar>a - s\<bar> \<le> s * e \<Longrightarrow> 0 \<le> f \<Longrightarrow> \<bar>a * f - s * f\<bar> \<le> s * f * e"
  for a s e f :: rat
proof -
  assume err: "\<bar>a - s\<bar> \<le> s * e" and f: "0 \<le> f"
  have "\<bar>a * f - s * f\<bar> = \<bar>a - s\<bar> * f"
    using f by (simp add: abs_mult flip: left_diff_distrib)
  also have "\<dots> \<le> s * e * f" using err f by (rule mult_right_mono)
  finally show ?thesis by (simp add: ac_simps)
qed

text \<open>One more rounding on top of a value that is already within \<open>e\<close> of the exact one.\<close>

lemma f64_round_chain:
  assumes "0 \<le> x" and "0 \<le> y" and "\<bar>y - x\<bar> \<le> x * e" and "e \<le> 1"
  shows "\<bar>f64_round y - x\<bar> \<le> x * (e + 2 / 2 ^ 53)"
proof -
  have "x * e \<le> x * 1" using assms(1,4) by (intro mult_left_mono)
  with assms(3) have y: "y \<le> 2 * x" by linarith
  have "\<bar>f64_round y - y\<bar> \<le> y / 2 ^ 53" using assms(2) by (rule f64_round_error)
  also have "\<dots> \<le> x * (2 / 2 ^ 53)" using y by simp
  finally show ?thesis using assms(3) unfolding distrib_left by linarith
qed

text \<open>Converting a duration to seconds costs two roundings, one more for the product.\<close>

lemma as_secs_f64_error:
  "\<bar>as_secs_f64 d - of_nat d / 1000000000\<bar> \<le> of_nat d / 1000000000 * (3 / 2 ^ 53)"
proof -
  let ?s = "of_nat (d div 1000000000) :: rat" and ?n = "of_nat (d mod 1000000000) / 1000000000 :: rat"
  let ?x = "of_nat d / 1000000000 :: rat" and ?y = "f64_round ?s + f64_round ?n"
  have "of_nat d = (of_nat (d div 1000000000 * 1000000000 + d mod 1000000000) :: rat)" by simp
  then have x: "?x = ?s + ?n" by (simp only: of_nat_add of_nat_mult) simp
  have "\<bar>?y - ?x\<bar> \<le> ?x / 2 ^ 53"
    unfolding x by (intro abs_error_add f64_round_error) simp_all
  then have sum: "\<bar>?y - ?x\<bar> \<le> ?x * (1 / 2 ^ 53)" by simp
  have "\<bar>f64_round ?y - ?x\<bar> \<le> ?x * (1 / 2 ^ 53 + 2 / 2 ^ 53)"
    by (rule f64_round_chain[OF _ _ sum]) (simp_all add: f64_round_nonneg)
  then show ?thesis by (simp add: as_secs_f64_def)
qed

lemma jitter_product_error:
  fixes d :: duration and f :: rat
  assumes "3 / 4 \<le> f" and "f \<le> 5 / 4"
  defines "x \<equiv> of_nat d / 1000000000 * f"
  shows "\<bar>f64_mul (as_secs_f64 d) f - x\<bar> \<le> x / 2 ^ 50" and "0 \<le> f64_mul (as_secs_f64 d) f"
proof -
  let ?a = "as_secs_f64 d" and ?s = "of_nat d / 1000000000 :: rat"
  have a: "0 \<le> ?a" by (simp add: as_secs_f64_def f64_round_nonneg add_nonneg_nonneg)
  have f: "0 \<le> f" using assms by simp
  have x: "0 \<le> x" using f by (simp add: x_def)
  have 1: "\<bar>?a * f - x\<bar> \<le> x * (3 / 2 ^ 53)"
    unfolding x_def using as_secs_f64_error[of d] f by (rule abs_error_mult)
  have "\<bar>f64_round (?a * f) - x\<bar> \<le> x * (3 / 2 ^ 53 + 2 / 2 ^ 53)"
    by (rule f64_round_chain[OF x _ 1]) (use a f in simp_all)
  also have "\<dots> \<le> x * (8 / 2 ^ 53)" using x by (intro mult_left_mono) simp_all
  finally show "\<bar>f64_mul ?a f - x\<bar> \<le> x / 2 ^ 50" by (simp add: f64_mul_def)
  show "0 \<le> f64_mul ?a f" using a f by (simp add: f64_mul_def f64_round_nonneg)
qed

lemma jitter_in_range:
  assumes "3 / 4 \<le> f" and "f \<le> 5 / 4" and "2 * d \<le> duration_max"
  shows "from_secs_f64 (f64_mul (as_secs_f64 d) f)
    = Some (nat (round_half_even (f64_mul (as_secs_f64 d) f * 1000000000)))"
proof -
  let ?s = "of_nat d / 1000000000 :: rat" and ?p = "f64_mul (as_secs_f64 d) f"
  note err = jitter_product_error[OF assms(1,2), of d]
  have "of_nat (2 * d) \<le> (of_nat duration_max :: rat)" using assms(3) of_nat_le_iff by blast
  then have s: "2 * ?s < 2 ^ 64" by (simp add: duration_max_def)
  have sf: "?s * f \<le> ?s * (5 / 4)" using assms(2) by (intro mult_left_mono) simp_all
  have "?s * f / 2 ^ 50 \<le> ?s / 2" using sf by simp
  with err(1) sf s have "?p < 2 ^ 64" by linarith
  then show ?thesis using err(2) by (simp add: from_secs_f64_def)
qed

section \<open>Properties\<close>

lemma next_delay_Some:
  assumes "3 / 4 \<le> f" and "f \<le> 5 / 4" and "2 * max_delay b \<le> duration_max"
  shows "\<exists>d. next_delay f b = (Some d, b\<lparr>attempt := sat_add (attempt b) 1\<rparr>)"
proof -
  have "bounded_delay b \<le> max_delay b" by (simp add: bounded_delay_def Let_def)
  with assms(3) have "2 * bounded_delay b \<le> duration_max" by linarith
  from jitter_in_range[OF assms(1,2) this] show ?thesis by (simp add: next_delay_def Let_def)
qed

lemma next_delay_plain:
  "\<not> jitter b \<Longrightarrow> next_delay f b = (Some (bounded_delay b), b\<lparr>attempt := sat_add (attempt b) 1\<rparr>)"
  by (simp add: next_delay_def)

lemma next_delay_keeps:
  "initial (snd (next_delay f b)) = initial b \<and> max_delay (snd (next_delay f b)) = max_delay b
   \<and> jitter (snd (next_delay f b)) = jitter b"
  by (auto simp: next_delay_def Let_def split: option.splits)

lemma next_delays_keeps:
  "initial (snd (next_delays fs b)) = initial b \<and> max_delay (snd (next_delays fs b)) = max_delay b
   \<and> jitter (snd (next_delays fs b)) = jitter b"
proof (induction fs arbitrary: b)
  case (Cons f fs)
  obtain d b' where nd: "next_delay f b = (d, b')" by (cases "next_delay f b")
  with Cons[of b'] next_delay_keeps[of f b] show ?case by (simp add: split_def Let_def)
qed simp

lemma bounded_delay_at:
  assumes "unat (attempt b) = min k (2 ^ 32 - 1)"
  shows "bounded_delay b = min (saturating_mul (initial b) (2 ^ min k 20)) (max_delay b)"
proof -
  have "unat (min (attempt b) 20) = min (unat (attempt b)) 20"
    by (simp add: min_def word_le_nat_alt)
  also have "\<dots> = min k 20" by (simp add: assms)
  finally show ?thesis by (simp add: bounded_delay_def Let_def)
qed

lemma next_delays_plain:
  assumes "\<not> jitter b" and "unat (attempt b) = min k (2 ^ 32 - 1)"
  shows "fst (next_delays fs b) =
    map (\<lambda>n. Some (min (saturating_mul (initial b) (2 ^ min n 20)) (max_delay b))) [k..<k + length fs]"
  using assms
proof (induction fs arbitrary: b k)
  case (Cons f fs)
  let ?b' = "b\<lparr>attempt := sat_add (attempt b) 1\<rparr>"
  have "unat (attempt ?b') = min (Suc k) (2 ^ 32 - 1)"
    using Cons.prems(2) by (simp add: unat_sat_add min_def)
  with Cons.IH[of ?b' "Suc k"] Cons.prems show ?case
    by (simp add: next_delay_plain bounded_delay_at[OF Cons.prems(2)] split_def Let_def upt_conv_Cons
        del: upt_Suc)
qed simp

text \<open>
  C34. Without jitter the delays double from the initial one, with the exponent capped at 20, and
  never pass the maximum. After any earlier calls and a reset, the \<open>n\<close>-th delay is
  \<open>min (initial * 2 ^ min n 20) max\<close> (the product saturating at \<open>Duration::MAX\<close>).
\<close>

theorem backoff_doubles_until_max:
  "fst (next_delays fs (backoff_reset (snd (next_delays gs (backoff_new i m False))))) =
     map (\<lambda>n. Some (min (saturating_mul i (2 ^ min n 20)) m)) [0..<length fs]"
  using next_delays_plain[of "backoff_reset (snd (next_delays gs (backoff_new i m False)))" 0 fs]
    next_delays_keeps[of gs "backoff_new i m False"]
  by (simp add: backoff_reset_def backoff_new_def)

text \<open>
  C35. The jittered delay is the bounded delay scaled by the random factor. For a factor between
  0.75 and 1.25 and a bounded delay up to half of \<open>Duration::MAX\<close>, \<open>next_delay\<close> does not
  panic, counts the attempt, and its result differs from the exact product by at most
  \<open>2 ^ -50\<close> of it plus half a nanosecond. So a delay may exceed \<open>max\<close>, by the factor.
\<close>

theorem jittered_delay_accurate:
  assumes "3 / 4 \<le> f" and "f \<le> 5 / 4" and "2 * bounded_delay b \<le> duration_max" and "jitter b"
  shows "\<exists>d. next_delay f b = (Some d, b\<lparr>attempt := sat_add (attempt b) 1\<rparr>)
    \<and> \<bar>of_nat d - of_nat (bounded_delay b) * f\<bar> \<le> of_nat (bounded_delay b) * f / 2 ^ 50 + 1 / 2"
proof -
  let ?s = "of_nat (bounded_delay b) / 1000000000 :: rat" and ?p = "f64_mul (as_secs_f64 (bounded_delay b)) f"
  note err = jitter_product_error[OF assms(1,2), of "bounded_delay b"]
  let ?d = "round_half_even (?p * 1000000000)"
  note some = jitter_in_range[OF assms(1,2,3)]
  have "0 \<le> ?d" using err(2) by (simp add: round_half_even_nonneg)
  then have nd: "of_nat (nat ?d) = (of_int ?d :: rat)" by simp
  have sb: "?s * f * 1000000000 = of_nat (bounded_delay b) * f" by simp
  have "\<bar>?p * 1000000000 - ?s * f * 1000000000\<bar> \<le> ?s * f * 1000000000 / 2 ^ 50"
    using err(1) by linarith
  then have "\<bar>?p * 1000000000 - of_nat (bounded_delay b) * f\<bar> \<le> of_nat (bounded_delay b) * f / 2 ^ 50"
    unfolding sb .
  with round_half_even_error[of "?p * 1000000000"] nd
  have "\<bar>of_nat (nat ?d) - of_nat (bounded_delay b) * f\<bar> \<le> of_nat (bounded_delay b) * f / 2 ^ 50 + 1 / 2"
    by linarith
  with some assms(4) show ?thesis by (simp add: next_delay_def Let_def)
qed

theorem jittered_delay_accurate_witness:
  "\<exists>d. fst (next_delay (5 / 4) (backoff_new (from_secs 1) (from_secs 60) True)) = Some d
     \<and> \<bar>of_nat d - 1250000000\<bar> \<le> (1 :: rat)"
proof -
  have b: "bounded_delay (backoff_new (from_secs 1) (from_secs 60) True) = 1000000000"
    by (simp add: bounded_delay_def backoff_new_def from_secs_def saturating_mul_def duration_max_def)
  then show ?thesis
    using jittered_delay_accurate[of "5 / 4" "backoff_new (from_secs 1) (from_secs 60) True"]
    by (fastforce simp: duration_max_def backoff_new_def)
qed


lemma powi_two_less_iff: "(2::rat) powi a < 2 powi b \<longleftrightarrow> a < b"
proof (cases "a < b")
  case False
  then have "(2::rat) powi b \<le> 2 powi a" by (intro power_int_increasing) simp_all
  with False show ?thesis by simp
qed (simp add: power_int_strict_increasing)

lemma log2_floor_ge: "0 < x \<Longrightarrow> 2 powi k \<le> x \<Longrightarrow> k \<le> log2_floor x"
  using log2_floor_bounds(2)[of x] powi_two_less_iff[of k "log2_floor x + 1"] by linarith

lemma log2_floor_eqI: "2 powi k \<le> x \<Longrightarrow> x < 2 powi (k + 1) \<Longrightarrow> log2_floor x = k"
proof -
  assume k: "2 powi k \<le> x" "x < 2 powi (k + 1)"
  then have x: "0 < x" by (meson less_le_trans zero_less_numeral zero_less_power_int)
  have "log2_floor x < k + 1"
    using log2_floor_bounds(1)[OF x] k(2) powi_two_less_iff[of "log2_floor x" "k + 1"] by linarith
  with log2_floor_ge[OF x k(1)] show ?thesis by simp
qed

lemma round_half_even_ge: "of_int n \<le> y \<Longrightarrow> n \<le> round_half_even y"
proof -
  assume "of_int n \<le> y"
  then have "n \<le> \<lfloor>y\<rfloor>" by (simp add: le_floor_iff)
  then show ?thesis by (auto simp: round_half_even_def Let_def)
qed

text \<open>Rounding never goes below the power of two under the value.\<close>

lemma f64_round_ge:
  assumes "2 powi k \<le> x"
  shows "2 powi k \<le> f64_round x"
proof -
  have x: "0 < x" using assms by (meson less_le_trans zero_less_numeral zero_less_power_int)
  let ?e = "log2_floor x"
  let ?u = "(2::rat) powi (?e - 52)"
  have "of_int (2 ^ 52) \<le> x / ?u"
    using log2_floor_bounds(1)[OF x] by (simp add: power_int_diff field_simps)
  then have "2 ^ 52 \<le> round_half_even (x / ?u)" by (rule round_half_even_ge)
  then have "of_int (2 ^ 52) \<le> (of_int (round_half_even (x / ?u)) :: rat)" by (simp only: of_int_le_iff)
  then have "of_int (2 ^ 52) * ?u \<le> f64_round x"
    using x by (simp add: f64_round_def Let_def)
  moreover have "of_int (2 ^ 52) * ?u = 2 powi ?e" by (simp add: power_int_diff)
  moreover have "(2::rat) powi k \<le> 2 powi ?e"
    using log2_floor_ge[OF x assms] by (intro power_int_increasing) simp_all
  ultimately show ?thesis by linarith
qed

lemma as_secs_f64_max: "2 ^ 64 \<le> as_secs_f64 duration_max"
proof -
  have "log2_floor (2 ^ 64 - 1) = 63" by (rule log2_floor_eqI) (simp_all add: power_int_def)
  moreover have "\<lfloor>18446744073709551615 / 2048 :: rat\<rfloor> = 9007199254740991"
    by (rule floor_unique) simp_all
  ultimately have "f64_round (2 ^ 64 - 1) = 2 ^ 64"
    by (simp add: f64_round_def Let_def power_int_def round_half_even_def)
  then have "2 powi 64 \<le> as_secs_f64 duration_max"
    unfolding as_secs_f64_def
    by (intro f64_round_ge) (simp add: duration_max_def power_int_def f64_round_nonneg)
  then show ?thesis by (simp add: power_int_def)
qed

text \<open>
  The panic at the top of the range. With jitter on and a bounded delay of
  \<open>Duration::MAX\<close>, every factor of 1 or more makes \<open>next_delay\<close> panic: as a double that
  delay is \<open>2 ^ 64\<close> seconds, which \<open>Duration::from_secs_f64\<close> refuses.
\<close>

theorem next_delay_panics_at_max:
  assumes "1 \<le> f"
  shows "next_delay f (backoff_new duration_max duration_max True)
       = (None, backoff_new duration_max duration_max True)"
proof -
  have b: "bounded_delay (backoff_new duration_max duration_max True) = duration_max"
    by (simp add: bounded_delay_def backoff_new_def saturating_mul_def)
  have "2 ^ 64 * 1 \<le> as_secs_f64 duration_max * f"
    using as_secs_f64_max assms by (intro mult_mono) simp_all
  then have "2 powi 64 \<le> as_secs_f64 duration_max * f" by (simp add: power_int_def)
  then have "2 powi 64 \<le> f64_mul (as_secs_f64 duration_max) f"
    unfolding f64_mul_def by (rule f64_round_ge)
  then have "from_secs_f64 (f64_mul (as_secs_f64 duration_max) f) = None"
    by (simp add: from_secs_f64_def power_int_def)
  then show ?thesis by (simp add: next_delay_def b Let_def) (simp add: backoff_new_def)
qed

theorem next_delay_panics_at_max_witness:
  "fst (next_delay (5 / 4) (backoff_new duration_max duration_max True)) = None"
  using next_delay_panics_at_max[of "5 / 4"] by simp

end
