(* ===== verification/Token.thy ===== *)
theory Token
  imports Rpc Json Backoff
begin

text \<open>
  \<open>src/agent.rs\<close>, the decisions of the run loop that need no state: when a token is due for
  replacement, what its claims say, what kind of session error happened and how long to wait, what
  the enrollment URL holds, and what a Channel opens with. base64, JSON text, metadata syntax and
  the header names of \<open>mcpg-control-plane-core\<close> are parameters.
\<close>

section \<open>Token life time\<close>

definition MIN_TOKEN_REFRESH_WINDOW :: duration where
  "MIN_TOKEN_REFRESH_WINDOW = from_secs (5 * 60)"

definition token_refresh_window :: "duration \<Rightarrow> duration" where
  "token_refresh_window heartbeat_interval =
     max MIN_TOKEN_REFRESH_WINDOW (saturating_mul heartbeat_interval 3)"

record jwt_packages =
  url_b64_decode :: "string \<Rightarrow> bytes option" \<comment> \<open>\<open>URL_SAFE_NO_PAD\<close>\<close>
  claims_text :: json_text

definition jwt_claims :: "jwt_packages \<Rightarrow> string \<Rightarrow> json option" where
  "jwt_claims J jwt =
     Option.bind (nth_opt (split_on (CHR ''.'') jwt) 1) (\<lambda>payload.
     Option.bind (url_b64_decode J (trim_end_matches (CHR ''='') payload))
       (json_parse (claims_text J)))"

text \<open>\<open>Value::as_f64\<close>, and \<open>as i64\<close> on a float: towards zero, saturating.\<close>

fun as_f64 :: "json \<Rightarrow> rat option" where
  "as_f64 (JInt n) = Some (if 0 \<le> n then f64_round (of_int n) else - f64_round (of_int (- n)))"
| "as_f64 (JFloat r) = Some r"
| "as_f64 _ = None"

definition f64_as_i64 :: "rat \<Rightarrow> int" where
  "f64_as_i64 r = sat_i64 (if 0 \<le> r then \<lfloor>r\<rfloor> else \<lceil>r\<rceil>)"

definition jwt_exp :: "jwt_packages \<Rightarrow> string \<Rightarrow> int option" where
  "jwt_exp J jwt =
     Option.bind (jwt_claims J jwt) (\<lambda>claims.
     Option.bind (value_get ''exp'' claims) (\<lambda>exp.
     case as_i64 exp of Some n \<Rightarrow> Some n | None \<Rightarrow> map_option f64_as_i64 (as_f64 exp)))"

definition jwt_instance_uid :: "jwt_packages \<Rightarrow> string \<Rightarrow> string option" where
  "jwt_instance_uid J jwt =
     Option.bind (jwt_claims J jwt) (\<lambda>claims.
     Option.bind (value_get ''instance_uid'' claims) (\<lambda>v.
     Option.bind (as_str v) (\<lambda>s. let uid = trim s in if uid \<noteq> [] then Some uid else None)))"

definition expires_within :: "int option \<Rightarrow> int \<Rightarrow> duration \<Rightarrow> bool" where
  "expires_within token_exp now window =
     (case token_exp of
        Some e \<Rightarrow> sat_i64 (e - now) \<le> u64_as_i64 (as_secs window)
      | None \<Rightarrow> True)"

section \<open>Session errors\<close>

definition describe_session_error :: "anyhow \<Rightarrow> string" where
  "describe_session_error err =
     (case status_in err of
        Some st \<Rightarrow> code_debug (st_code st) @ '': '' @ st_message st
      | None \<Rightarrow> anyhow_text err)"

definition MAX_SLOT_RETRY :: duration where "MAX_SLOT_RETRY = from_secs 125"
definition SLOT_RETRY_MARGIN :: duration where "SLOT_RETRY_MARGIN = from_millis 250"

record delivery_headers =
  delivery_nonce_header :: string
  agent_version_header :: string
  agent_process_header :: string
  agent_heartbeat_header :: string
  channel_retry_after_header :: string

definition slot_retry_in :: "metadata_rules \<Rightarrow> delivery_headers \<Rightarrow> anyhow \<Rightarrow> duration option" where
  "slot_retry_in R H err =
     Option.bind (status_in err) (\<lambda>st.
       if st_code st \<noteq> CodeAlreadyExists then None
       else let named =
                  Option.bind (st_metadata st (channel_retry_after_header H)) (\<lambda>v.
                  if md_to_str R v then map_option from_millis (parse_u64 (trim v)) else None)
            in Some (case named of
                       None \<Rightarrow> MAX_SLOT_RETRY
                     | Some frees_in \<Rightarrow> min (frees_in + SLOT_RETRY_MARGIN) MAX_SLOT_RETRY))"

definition is_credential_rejection :: "anyhow \<Rightarrow> bool" where
  "is_credential_rejection err =
     (case status_in err of
        None \<Rightarrow> False
      | Some st \<Rightarrow>
          (case st_code st of
             CodeUnauthenticated \<Rightarrow> True
           | CodePermissionDenied \<Rightarrow>
               (let message = to_ascii_lowercase (st_message st)
                in contains ''instance-token'' message \<or> contains ''instance token'' message)
           | _ \<Rightarrow> False))"

section \<open>Enrollment URL, host name, Channel metadata\<close>

definition extract_token :: "string \<Rightarrow> anyhow + string" where
  "extract_token url =
     (case split_once (CHR ''#'') url of
        None \<Rightarrow> Inl (anyhow_msg ''enrollment URL missing fragment'')
      | Some (_, frag) \<Rightarrow>
          (case find_map (strip_prefix ''token='') (split_on (CHR ''&'') frag) of
             None \<Rightarrow> Inl (anyhow_msg ''enrollment URL missing token=...'')
           | Some token \<Rightarrow> Inr token))"

definition hostname :: "(string \<Rightarrow> string option) \<Rightarrow> string option" where
  "hostname env_var = (case env_var ''HOSTNAME'' of Some h \<Rightarrow> Some h | None \<Rightarrow> env_var ''COMPUTERNAME'')"

record channel_metadata =
  cm_nonce :: string
  cm_version :: string
  cm_process :: string
  cm_heartbeat :: duration

definition insert_checked :: "metadata_rules \<Rightarrow> string \<times> string \<Rightarrow> metadata \<Rightarrow> metadata" where
  "insert_checked R = (\<lambda>(key, v) md. if md_try_from R v then md(key \<mapsto> v) else md)"

definition insert_channel_metadata ::
  "metadata_rules \<Rightarrow> delivery_headers \<Rightarrow> channel_metadata \<Rightarrow> metadata \<Rightarrow> metadata" where
  "insert_channel_metadata R H opened md =
     fold (insert_checked R)
       [(delivery_nonce_header H, cm_nonce opened),
        (agent_version_header H, cm_version opened),
        (agent_process_header H, cm_process opened),
        (agent_heartbeat_header H, show_nat (as_millis (cm_heartbeat opened)))] md"

section \<open>Lemmas\<close>

lemma trim_end_matches_append [simp]:
  "c \<notin> set p \<Longrightarrow> trim_end_matches c (p @ replicate n c) = p"
proof -
  assume c: "c \<notin> set p"
  have "dropWhile (\<lambda>x. x = c) (replicate n c @ rev p) = rev p"
    using c by (induction n) (auto simp: dropWhile_eq_self_iff hd_rev)
  then show ?thesis by (simp add: trim_end_matches_def)
qed

lemma jwt_claims_parts:
  assumes "CHR ''.'' \<notin> set h" and "CHR ''.'' \<notin> set p" and "CHR ''='' \<notin> set p"
  shows "jwt_claims J (h @ ''.'' @ p @ replicate n (CHR ''='') @ ''.'' @ sig)
    = Option.bind (url_b64_decode J p) (json_parse (claims_text J))"
proof -
  have "split_on (CHR ''.'') (h @ CHR ''.'' # (p @ replicate n (CHR ''='')) @ CHR ''.'' # sig)
      = h # (p @ replicate n (CHR ''='')) # split_on (CHR ''.'') sig"
    using assms(1,2) split_on_append[of "CHR ''.''" "p @ replicate n (CHR ''='')"]
    by (subst split_on_append) auto
  with assms(3) show ?thesis by (simp add: jwt_claims_def nth_opt_def)
qed

lemma token_refresh_window_floor:
  "MIN_TOKEN_REFRESH_WINDOW \<le> token_refresh_window hb"
  "hb * 3 \<le> duration_max \<Longrightarrow> hb * 3 \<le> token_refresh_window hb"
  by (simp_all add: token_refresh_window_def saturating_mul_def)

lemma as_secs_mono: "a \<le> b \<Longrightarrow> as_secs a \<le> as_secs b"
  by (simp add: as_secs_def div_le_mono)

lemma as_secs_max: "as_secs (max a b) = max (as_secs a) (as_secs b)"
  by (rule max_of_mono[symmetric]) (simp add: mono_def as_secs_mono)

lemma sat_i64_less_iff: "int m < i64_max \<Longrightarrow> int m < sat_i64 x \<longleftrightarrow> int m < x"
  by (auto simp: sat_i64_def i64_min_def i64_max_def)

lemma status_in_classes:
  "is_credential_rejection err \<Longrightarrow> slot_retry_in R H err = None"
  by (auto simp: is_credential_rejection_def slot_retry_in_def split: option.splits code.splits)

lemma expires_within_iff:
  assumes "heartbeat < from_secs (2 ^ 61)"
  shows "\<not> expires_within token_exp now (token_refresh_window heartbeat)
     \<longleftrightarrow> (\<exists>e. token_exp = Some e \<and> 300 < e - now \<and> int (as_secs (heartbeat * 3)) < e - now)"
proof (cases token_exp)
  case (Some e)
  have hb: "heartbeat * 3 < 3 * from_secs (2 ^ 61)" using assms by simp
  then have "saturating_mul heartbeat 3 = heartbeat * 3"
    by (simp add: saturating_mul_def duration_max_def from_secs_def)
  then have max: "as_secs (token_refresh_window heartbeat) = max 300 (as_secs (heartbeat * 3))"
    by (simp add: token_refresh_window_def as_secs_max MIN_TOKEN_REFRESH_WINDOW_def from_secs_def as_secs_def)
  have "as_secs (heartbeat * 3) \<le> as_secs (3 * from_secs (2 ^ 61))" using hb by (intro as_secs_mono) simp
  then have w: "int (max 300 (as_secs (heartbeat * 3))) < i64_max"
    by (simp add: i64_max_def from_secs_def as_secs_def)
  then have "u64_as_i64 (as_secs (token_refresh_window heartbeat)) = int (max 300 (as_secs (heartbeat * 3)))"
    by (simp add: max u64_as_i64_def)
  then have "\<not> expires_within (Some e) now (token_refresh_window heartbeat)
      \<longleftrightarrow> int (max 300 (as_secs (heartbeat * 3))) < e - now"
    using sat_i64_less_iff[OF w, of "e - now"] by (simp only: expires_within_def option.case linorder_not_le)
  moreover have "int (max 300 m) < d \<longleftrightarrow> 300 < d \<and> int m < d" for m d
    by (auto simp: max_def)
  ultimately show ?thesis by (simp only: Some option.inject ex_simps simp_thms)
qed (simp add: expires_within_def)

section \<open>Properties\<close>

text \<open>
  C37. A token the run loop presents has life left: when the check before a connect does not ask for
  a replacement, the token's \<open>exp\<close> was readable and lies more than five minutes and more than
  three heartbeat intervals ahead, for every heartbeat interval up to \<open>2 ^ 61\<close> seconds. The
  saturating subtraction never hides an expired token. Conversely a token with that much left is
  never replaced.
\<close>

theorem presented_tokens_have_life_left:
  assumes "heartbeat < from_secs (2 ^ 61)"
  shows "\<not> expires_within token_exp now (token_refresh_window heartbeat)
     \<longleftrightarrow> (\<exists>e. token_exp = Some e \<and> 300 < e - now \<and> int (as_secs (heartbeat * 3)) < e - now)"
  by (rule expires_within_iff[OF assms])

theorem presented_tokens_have_life_left_witness:
  "\<not> expires_within (Some 1000) 600 (token_refresh_window (from_secs 30))
   \<and> expires_within (Some 1000) 700 (token_refresh_window (from_secs 30))"
  using presented_tokens_have_life_left[of "from_secs 30" "Some 1000" 600]
    presented_tokens_have_life_left[of "from_secs 30" "Some 1000" 700]
  by (simp add: from_secs_def as_secs_def)

text \<open>
  The cast of the window to a signed number wraps for longer windows: with the heartbeat switched
  off by the longest duration, a token that expires this very second counts as good.
\<close>

lemma refresh_window_wraps: "\<not> expires_within (Some now) now (token_refresh_window duration_max)"
  by (simp add: expires_within_def token_refresh_window_def saturating_mul_def MIN_TOKEN_REFRESH_WINDOW_def
      duration_max_def from_secs_def as_secs_def u64_as_i64_def i64_max_def sat_i64_def i64_min_def)

text \<open>
  C38. The wait after a refused Channel slot: exactly the \<open>AlreadyExists\<close> refusals give one. It
  is never longer than 125 seconds; when the control plane names the milliseconds until the slot
  frees, it ends strictly after that moment unless cut to the 125 seconds, and the sum it is computed
  from never overflows a \<open>Duration\<close>; when it names none, or something that is no number, the
  wait is the full 125 seconds.
\<close>

theorem slot_retry_waits_for_the_slot:
  "case slot_retry_in R H err of
     None \<Rightarrow> \<not> (\<exists>st. status_in err = Some st \<and> st_code st = CodeAlreadyExists)
   | Some d \<Rightarrow>
       d \<le> from_secs 125
     \<and> (\<exists>st. status_in err = Some st \<and> st_code st = CodeAlreadyExists
          \<and> (case Option.bind (st_metadata st (channel_retry_after_header H))
                    (\<lambda>v. if md_to_str R v then parse_u64 (trim v) else None) of
               None \<Rightarrow> d = from_secs 125
             | Some ms \<Rightarrow> from_millis ms + from_millis 250 \<le> duration_max
                        \<and> (from_millis ms < d \<or> d = from_secs 125)
                        \<and> d \<le> from_millis ms + from_millis 250))"
proof (cases "status_in err")
  case (Some st)
  let ?ms = "Option.bind (st_metadata st (channel_retry_after_header H))
                    (\<lambda>v. if md_to_str R v then parse_u64 (trim v) else None)"
  have named: "Option.bind (st_metadata st (channel_retry_after_header H)) (\<lambda>v.
       if md_to_str R v then map_option from_millis (parse_u64 (trim v)) else None) = map_option from_millis ?ms"
    by (cases "st_metadata st (channel_retry_after_header H)") auto
  have "ms < 2 ^ 64" if "?ms = Some ms" for ms
    using that by (auto split: Option.bind_splits if_splits dest: parse_u64_range)
  then show ?thesis
    by (cases ?ms) (auto simp: slot_retry_in_def Some named Let_def MAX_SLOT_RETRY_def SLOT_RETRY_MARGIN_def
        from_secs_def from_millis_def duration_max_def)
qed (simp add: slot_retry_in_def)

text \<open>
  Every session error takes exactly one branch of the run loop: a credential rejection never
  also asks for a slot retry. An error without a gRPC status, such as the quarantine notice or a
  failed dial, is neither, and is reported as it prints; one with a status is reported under the
  name of its code.
\<close>

theorem session_errors_take_one_branch:
  "\<not> (is_credential_rejection err \<and> slot_retry_in R H err \<noteq> None)
   \<and> (case status_in err of
        None \<Rightarrow> \<not> is_credential_rejection err \<and> slot_retry_in R H err = None
                 \<and> describe_session_error err = anyhow_text err
      | Some st \<Rightarrow>
          prefix (code_debug (st_code st) @ '': '') (describe_session_error err)
        \<and> (st_code st = CodeUnauthenticated \<longrightarrow> is_credential_rejection err)
        \<and> (is_credential_rejection err \<longrightarrow> st_code st \<in> {CodeUnauthenticated, CodePermissionDenied}))"
  by (auto simp: is_credential_rejection_def slot_retry_in_def describe_session_error_def
      split: option.splits code.splits)

theorem session_errors_take_one_branch_witness:
  "let st = \<lparr>st_code = CodePermissionDenied, st_message = ''Instance-Token revoked'', st_metadata = (\<lambda>_. None)\<rparr>;
       err = [OtherCause ''channel'', StatusCause st ''denied'']
   in is_credential_rejection err
      \<and> slot_retry_in \<lparr>md_try_from = (\<lambda>_. True), md_to_str = (\<lambda>_. True)\<rparr>
          \<lparr>delivery_nonce_header = ''n'', agent_version_header = ''v'', agent_process_header = ''p'',
           agent_heartbeat_header = ''h'', channel_retry_after_header = ''r''\<rparr> err = None
      \<and> describe_session_error err = ''PermissionDenied: Instance-Token revoked''"
proof -
  let ?err = "[OtherCause ''channel'', StatusCause \<lparr>st_code = CodePermissionDenied,
      st_message = ''Instance-Token revoked'', st_metadata = (\<lambda>_. None)\<rparr> ''denied'']"
  have "is_credential_rejection ?err" by code_simp
  moreover have "describe_session_error ?err = ''PermissionDenied: Instance-Token revoked''" by code_simp
  ultimately show ?thesis
    using session_errors_take_one_branch[of ?err] unfolding Let_def by blast
qed

text \<open>
  The enrollment token is the value of the first \<open>token=\<close> member of the URL's fragment,
  whatever surrounds it: the part before the first \<open>#\<close> is ignored, other members are skipped,
  and later ones do not matter. A URL without a fragment or without such a member is an error.
\<close>

theorem extract_token_finds_first:
  "case extract_token url of
     Inr t \<Rightarrow> \<exists>base frag us vs. url = base @ ''#'' @ frag \<and> CHR ''#'' \<notin> set base
                \<and> split_on (CHR ''&'') frag = us @ (''token='' @ t) # vs
                \<and> \<not> (\<exists>u \<in> set us. prefix ''token='' u)
   | Inl e \<Rightarrow> (CHR ''#'' \<notin> set url \<and> e = anyhow_msg ''enrollment URL missing fragment'')
             \<or> (\<exists>base frag. url = base @ ''#'' @ frag \<and> CHR ''#'' \<notin> set base
                 \<and> \<not> (\<exists>u \<in> set (split_on (CHR ''&'') frag). prefix ''token='' u)
                 \<and> e = anyhow_msg ''enrollment URL missing token=...'')"
proof (cases "split_once (CHR ''#'') url")
  case None
  then have "extract_token url = Inl (anyhow_msg ''enrollment URL missing fragment'')"
    by (simp add: extract_token_def)
  with None show ?thesis by (simp add: split_once_None)
next
  case (Some bf)
  then obtain base frag where split: "split_once (CHR ''#'') url = Some (base, frag)" by (cases bf) auto
  then have url: "url = base @ ''#'' @ frag" "CHR ''#'' \<notin> set base" by (simp_all add: split_once_Some)
  have strip: "strip_prefix ''token='' u = None \<longleftrightarrow> \<not> prefix ''token='' u" for u
    by (simp add: strip_prefix_def)
  show ?thesis
  proof (cases "find_map (strip_prefix ''token='') (split_on (CHR ''&'') frag)")
    case None
    with split have "extract_token url = Inl (anyhow_msg ''enrollment URL missing token=...'')"
      by (simp add: extract_token_def)
    with None url show ?thesis by (auto simp: find_map_None_iff strip)
  next
    case (Some t)
    with split have "extract_token url = Inr t" by (simp add: extract_token_def)
    moreover from Some obtain us x vs where x: "split_on (CHR ''&'') frag = us @ x # vs"
      "strip_prefix ''token='' x = Some t" "\<forall>u \<in> set us. strip_prefix ''token='' u = None"
      unfolding find_map_Some_iff by blast
    from x(2) have "x = ''token='' @ t" by (simp only: strip_prefix_Some_iff)
    with x(1,3) url have "url = base @ ''#'' @ frag \<and> CHR ''#'' \<notin> set base
        \<and> split_on (CHR ''&'') frag = us @ (''token='' @ t) # vs \<and> \<not> (\<exists>u \<in> set us. prefix ''token='' u)"
      by (simp only: strip) blast
    ultimately show ?thesis by (simp only: sum.case) blast
  qed
qed

text \<open>
  The claims of a token are read from its second dot-separated part, with or without base64
  padding: an integer \<open>exp\<close> within 64 bits is taken as it is, and the instance uid is the
  trimmed string of its claim, absent when that is blank.
\<close>

theorem claims_of_a_token:
  assumes "CHR ''.'' \<notin> set h" and "CHR ''.'' \<notin> set p" and "CHR ''='' \<notin> set p"
    and "url_b64_decode J p = Some raw" and "json_parse (claims_text J) raw = Some (JObj kvs)"
  shows "jwt_claims J (h @ ''.'' @ p @ replicate n (CHR ''='') @ ''.'' @ sig) = Some (JObj kvs)
       \<and> (map_of (rev kvs) ''exp'' = Some (JInt e) \<and> i64_min \<le> e \<and> e \<le> i64_max
            \<longrightarrow> jwt_exp J (h @ ''.'' @ p @ replicate n (CHR ''='') @ ''.'' @ sig) = Some e)
       \<and> (map_of (rev kvs) ''exp'' = None
            \<longrightarrow> jwt_exp J (h @ ''.'' @ p @ replicate n (CHR ''='') @ ''.'' @ sig) = None)
       \<and> (map_of (rev kvs) ''instance_uid'' = Some (JStr uid)
            \<longrightarrow> jwt_instance_uid J (h @ ''.'' @ p @ replicate n (CHR ''='') @ ''.'' @ sig)
                = (if trim uid = [] then None else Some (trim uid)))"
  using jwt_claims_parts[OF assms(1-3), of J n sig] assms(4,5)
  by (simp add: jwt_exp_def jwt_instance_uid_def Let_def)

definition demo_jwt :: jwt_packages where
  "demo_jwt = \<lparr>url_b64_decode = (\<lambda>s. if s = ''PP'' then Some [7] else None),
               claims_text = \<lparr>json_print = (\<lambda>_. [7]),
                 json_parse = (\<lambda>bs. if bs = [7] then Some (JObj [(''exp'', JInt 900)]) else None)\<rparr>\<rparr>"

theorem claims_of_a_token_witness: "jwt_exp demo_jwt ''hh.PP==.ss'' = Some 900"
  using claims_of_a_token[of "''hh''" "''PP''" demo_jwt "[7]" "[(''exp'', JInt 900)]" 2 "''ss''" 900 "[]"]
  by (simp add: demo_jwt_def i64_min_def i64_max_def numeral_2_eq_2)

text \<open>
  A Channel opens with the nonce, the version, the process id and the heartbeat in milliseconds,
  each under its own header: a value that cannot be sent is left out without affecting the others,
  and no other entry of the request changes.
\<close>

theorem channel_metadata_entries:
  assumes "distinct [delivery_nonce_header H, agent_version_header H, agent_process_header H, agent_heartbeat_header H]"
  shows "insert_channel_metadata R H m md k =
    (if k = delivery_nonce_header H \<and> md_try_from R (cm_nonce m) then Some (cm_nonce m)
     else if k = agent_version_header H \<and> md_try_from R (cm_version m) then Some (cm_version m)
     else if k = agent_process_header H \<and> md_try_from R (cm_process m) then Some (cm_process m)
     else if k = agent_heartbeat_header H \<and> md_try_from R (show_nat (as_millis (cm_heartbeat m)))
          then Some (show_nat (as_millis (cm_heartbeat m)))
     else md k)"
  using assms by (auto simp: insert_channel_metadata_def insert_checked_def)

theorem channel_metadata_entries_witness:
  "insert_channel_metadata \<lparr>md_try_from = (\<lambda>s. s \<noteq> ''bad''), md_to_str = (\<lambda>_. True)\<rparr>
     \<lparr>delivery_nonce_header = ''n'', agent_version_header = ''v'', agent_process_header = ''p'',
      agent_heartbeat_header = ''h'', channel_retry_after_header = ''r''\<rparr>
     \<lparr>cm_nonce = ''N'', cm_version = ''bad'', cm_process = ''P'', cm_heartbeat = from_millis 9\<rparr> (\<lambda>_. None) ''n'' = Some ''N''"
  using channel_metadata_entries[of
     "\<lparr>delivery_nonce_header = ''n'', agent_version_header = ''v'', agent_process_header = ''p'',
      agent_heartbeat_header = ''h'', channel_retry_after_header = ''r''\<rparr>"
     "\<lparr>md_try_from = (\<lambda>s. s \<noteq> ''bad''), md_to_str = (\<lambda>_. True)\<rparr>"
     "\<lparr>cm_nonce = ''N'', cm_version = ''bad'', cm_process = ''P'', cm_heartbeat = from_millis 9\<rparr>" "\<lambda>_. None" "''n''"]
  by simp

end
