(* ===== verification/Agent.thy ===== *)
theory Agent
  imports FinalFlush Status Lkg Creds Token
begin

text \<open>
  \<open>src/agent.rs\<close>: the runner. Its state is the record \<open>runner\<close>: the client, the two
  telemetry buffers, the shared cells the host reads, the state directory, and a trace of what the
  host and the subscribers saw. One operation per method; where a method awaits, an environment
  argument says how the await ended, and dropping the future at that point (the \<open>select!\<close> of a
  session) is one of the outcomes. \<open>'b\<close> is the type \<open>ConfigBundle\<close>.
\<close>

section \<open>Configuration, events, state\<close>

record agent_runner_config =
  cp_endpoint :: string
  enrollment_url :: string
  instance_uid :: string
  version :: string
  state_dir :: path
  heartbeat_interval :: duration
  backoff_initial :: duration
  backoff_max :: duration
  bootstrap_ca_pem :: "string option"
  metrics_flush_interval :: "duration option"

text \<open>The drawn uuid and the package version are arguments.\<close>

definition agent_runner_config_default :: "string \<Rightarrow> string \<Rightarrow> agent_runner_config" where
  "agent_runner_config_default uuid pkg_version =
     \<lparr>cp_endpoint = ''http://127.0.0.1:7844'', enrollment_url = [], instance_uid = ''mcpg-'' @ uuid,
      version = pkg_version, state_dir = [''.'', ''agent-state''], heartbeat_interval = from_secs 30,
      backoff_initial = from_secs 1, backoff_max = from_secs 60, bootstrap_ca_pem = None,
      metrics_flush_interval = None\<rparr>"

datatype agent_event =
    Registered string
  | ChannelConnected
  | ChannelDisconnected string
  | HeartbeatSent u64
  | ConfigReceived string
  | EventError string

record quota_status =
  qs_exhausted :: bool
  qs_remaining :: "int option"
  qs_limit :: "int option"

text \<open>
  Which hooks are wired, and what they were called with: bundles given to the config applier,
  deliveries and slot waits given to the licence applier.
\<close>

record 'b hooks =
  has_config_applier :: bool
  has_status_source :: bool
  has_license_applier :: bool
  applied_bundles :: "'b list"
  applied_licences :: "license_delivery list"
  slot_waits :: "duration list"

record 'b runner =
  cfg :: agent_runner_config
  client :: agent_client
  metrics :: metrics_buffer
  logs :: log_buffer
  quota :: "quota_status option"
  payload_dek :: "dek_handle option"
  applied_config_hash :: "string option"
  process_id :: string
  hook :: "'b hooks"
  disk :: fs
  sent_events :: "agent_event list"
  shutdown_finished :: bool

definition runner_new :: "string \<Rightarrow> fs \<Rightarrow> agent_runner_config \<Rightarrow> 'b runner" where
  "runner_new fresh_nonce s c =
     \<lparr>cfg = c, client = client_new (cp_endpoint c), metrics = new, logs = log_new, quota = None,
      payload_dek = None, applied_config_hash = None, process_id = fresh_nonce,
      hook = \<lparr>has_config_applier = False, has_status_source = False, has_license_applier = False,
              applied_bundles = [], applied_licences = [], slot_waits = []\<rparr>,
      disk = s, sent_events = [], shutdown_finished = False\<rparr>"

definition with_config_applier :: "'b runner \<Rightarrow> 'b runner" where
  "with_config_applier r = r\<lparr>hook := (hook r)\<lparr>has_config_applier := True\<rparr>\<rparr>"

definition with_status_source :: "'b runner \<Rightarrow> 'b runner" where
  "with_status_source r = r\<lparr>hook := (hook r)\<lparr>has_status_source := True\<rparr>\<rparr>"

definition with_license_applier :: "'b runner \<Rightarrow> 'b runner" where
  "with_license_applier r = r\<lparr>hook := (hook r)\<lparr>has_license_applier := True\<rparr>\<rparr>"

definition emit :: "agent_event \<Rightarrow> 'b runner \<Rightarrow> 'b runner" where
  "emit e r = r\<lparr>sent_events := sent_events r @ [e]\<rparr>"

text \<open>The packages and services behind the runner.\<close>

record 'b world =
  w_lkg :: "'b lkg_packages"
  w_creds :: creds_packages
  w_license_text :: json_text
  w_jwt :: jwt_packages
  w_rules :: metadata_rules
  w_headers :: delivery_headers
  w_enums :: proto_enums

section \<open>Messages from the control plane\<close>

record 'b config_update =
  cu_config_hash :: string
  cu_bundle :: "'b option"

record license_update =
  lu_license_jwt :: string
  lu_org_slug :: string
  lu_refresh_failing :: bool
  lu_delivery_proof :: string

datatype 'b server_kind =
    ConfigUpdate "'b config_update"
  | Command string
  | CredentialRotation credential_rotation
  | Quarantine string
  | DiagnosticRequest
  | LogRequest
  | QuotaStatus quota_status
  | LicenseUpdate license_update

text \<open>
  How the host's \<open>apply\<close> ended, how the send of an acknowledgement ended, and everything else
  the handling of one message depends on. \<open>me_io_again\<close> answers the second read of the credentials
  file within one rotation.
\<close>

datatype apply_outcome = Applied | ApplyFailed string | ApplyDropped

datatype ack_outcome = AckSent | AckClosed | AckDropped

record message_env =
  me_io :: io
  me_io_again :: io
  me_rng :: rng
  me_now :: datetime
  me_apply :: apply_outcome
  me_ack :: ack_outcome
  me_license_dropped :: bool

datatype handled = Continue | SessionFailed anyhow | FutureDropped | Panicked

text \<open>What handling one message leaves behind: how it ended, the acknowledgements sent, the runner.\<close>

type_synonym 'b handling = "handled \<times> agent_message list \<times> 'b runner"

definition config_ack_message :: "datetime \<Rightarrow> string \<Rightarrow> string \<Rightarrow> string \<Rightarrow> agent_message" where
  "config_ack_message now hash applied_state err =
     ConfigAck \<lparr>ca_config_hash = hash, ca_applied_at = Some (pb_now now), ca_applied_state = applied_state,
                ca_error = err\<rparr>"

text \<open>The outcome is recorded and acknowledged: the part of the handler after the apply.\<close>

definition finish_config_update :: "message_env \<Rightarrow> string \<Rightarrow> string \<Rightarrow> string \<Rightarrow> 'b runner \<Rightarrow> 'b handling" where
  "finish_config_update e hash applied_state err r =
     (let r = (if applied_state = ''active'' \<and> hash \<noteq> [] then r\<lparr>applied_config_hash := Some hash\<rparr> else r);
          r = emit (ConfigReceived hash) r
      in case me_ack e of
           AckSent \<Rightarrow> (Continue, [config_ack_message (me_now e) hash applied_state err], r)
         | AckClosed \<Rightarrow> (Continue, [], r)
         | AckDropped \<Rightarrow> (FutureDropped, [], r))"

definition save_lkg :: "'b world \<Rightarrow> message_env \<Rightarrow> 'b config_update \<Rightarrow> 'b runner \<Rightarrow> (lkg_error + unit) \<times> 'b runner" where
  "save_lkg W e update r =
     (case cu_bundle update of
        None \<Rightarrow> (Inr (), r)
      | Some b \<Rightarrow>
          (case lkg_save (w_lkg W) (me_io e) (me_rng e) (me_now e) (in_state_dir (state_dir (cfg r)))
                  (cu_config_hash update) b (disk r) of
             (res, s) \<Rightarrow> (res, r\<lparr>disk := s\<rparr>)))"

definition handle_config_update :: "'b world \<Rightarrow> message_env \<Rightarrow> 'b config_update \<Rightarrow> 'b runner \<Rightarrow> 'b handling" where
  "handle_config_update W e update r =
     (let hash = cu_config_hash update; (saved, r) = save_lkg W e update r
      in if saved = Inl LkgPanic then (Panicked, [], r)
         else case cu_bundle update of
                Some b \<Rightarrow>
                  (if has_config_applier (hook r)
                   then let r = r\<lparr>hook := (hook r)\<lparr>applied_bundles := applied_bundles (hook r) @ [b]\<rparr>\<rparr>
                        in case me_apply e of
                             Applied \<Rightarrow> finish_config_update e hash ''active'' [] r
                           | ApplyFailed why \<Rightarrow> finish_config_update e hash ''error'' why r
                           | ApplyDropped \<Rightarrow> (FutureDropped, [], r)
                   else finish_config_update e hash ''active'' [] r)
              | None \<Rightarrow> finish_config_update e hash ''active'' [] r)"

definition rotate_dek :: "credential_rotation \<Rightarrow> dek_handle option \<Rightarrow> dek_handle option" where
  "rotate_dek cr slot =
     (if rot_payload_dek cr = [] then slot
      else case from_proto (rot_payload_dek cr) (rot_payload_dek_version cr) of
             Inr (Some h) \<Rightarrow> Some h
           | Inr None \<Rightarrow> slot
           | Inl _ \<Rightarrow> slot)"

definition handle_rotation :: "'b world \<Rightarrow> message_env \<Rightarrow> credential_rotation \<Rightarrow> 'b runner \<Rightarrow> 'b runner" where
  "handle_rotation W e cr r =
     (if rot_instance_jwt cr = [] then r
      else let r = r\<lparr>client := set_jwt (rot_instance_jwt cr) (client r)\<rparr>;
               r = r\<lparr>disk := snd (persist_rotated_creds (w_creds W) (me_io e) (me_now e) (state_dir (cfg r)) cr (disk r))\<rparr>;
               r = (if rot_client_cert_pem cr \<noteq> []
                    then (case fst (read_stored_creds (w_creds W) (me_io_again e) (state_dir (cfg r)) (disk r)) of
                            Inl _ \<Rightarrow> r
                          | Inr stored \<Rightarrow>
                              r\<lparr>client := set_tls (Some \<lparr>ca_pem = sc_ca_chain_pem stored,
                                                       client_cert_pem = rot_client_cert_pem cr,
                                                       client_key_pem = rot_client_key_pem cr,
                                                       server_name = None\<rparr>) (client r)\<rparr>)
                    else r)
           in r\<lparr>payload_dek := rotate_dek cr (payload_dek r)\<rparr>)"

definition handle_license_update ::
  "'b world \<Rightarrow> message_env \<Rightarrow> string \<Rightarrow> string \<Rightarrow> license_update \<Rightarrow> 'b runner \<Rightarrow> 'b handling" where
  "handle_license_update W e nonce uid update r =
     (let delivery = \<lparr>license_jwt = lu_license_jwt update, org_slug = lu_org_slug update,
                      refresh_failing = lu_refresh_failing update, delivery_proof = lu_delivery_proof update,
                      channel_nonce = nonce, ld_instance_uid = uid\<rparr>;
          r = r\<lparr>disk := snd (save_cached (w_license_text W) (me_io e) (state_dir (cfg r)) delivery (disk r))\<rparr>
      in if has_license_applier (hook r)
         then (if me_license_dropped e then FutureDropped else Continue, [],
               r\<lparr>hook := (hook r)\<lparr>applied_licences := applied_licences (hook r) @ [delivery]\<rparr>\<rparr>)
         else (Continue, [], r))"

definition handle_message ::
  "'b world \<Rightarrow> message_env \<Rightarrow> string \<Rightarrow> string \<Rightarrow> 'b server_kind option \<Rightarrow> 'b runner \<Rightarrow> 'b handling" where
  "handle_message W e nonce uid kind r =
     (case kind of
        Some (ConfigUpdate update) \<Rightarrow> handle_config_update W e update r
      | Some (Command _) \<Rightarrow> (Continue, [], r)
      | Some (CredentialRotation cr) \<Rightarrow> (Continue, [], handle_rotation W e cr r)
      | Some (Quarantine reason) \<Rightarrow> (SessionFailed (anyhow_msg (''quarantined: '' @ reason)), [], r)
      | Some DiagnosticRequest \<Rightarrow> (Continue, [], r)
      | Some LogRequest \<Rightarrow> (Continue, [], r)
      | Some (QuotaStatus qs) \<Rightarrow> (Continue, [], r\<lparr>quota := Some qs\<rparr>)
      | Some (LicenseUpdate update) \<Rightarrow> handle_license_update W e nonce uid update r
      | None \<Rightarrow> (Continue, [], r))"

text \<open>
  The inbound stream: messages, an error, its end, or the reading future dropped while it waits for
  the next item (a shutdown notification).
\<close>

datatype 'b inbound = Message message_env "'b server_kind option" | StreamError anyhow | DroppedWaiting

fun read_inbound ::
  "'b world \<Rightarrow> string \<Rightarrow> string \<Rightarrow> 'b inbound list \<Rightarrow> 'b runner \<Rightarrow> 'b handling" where
  "read_inbound W nonce uid [] r = (Continue, [], r)"
| "read_inbound W nonce uid (StreamError e # items) r = (SessionFailed e, [], r)"
| "read_inbound W nonce uid (DroppedWaiting # items) r = (FutureDropped, [], r)"
| "read_inbound W nonce uid (Message e kind # items) r =
     (case handle_message W e nonce uid kind r of
        (Continue, acks, r') \<Rightarrow>
          (case read_inbound W nonce uid items r' of (h, acks', r'') \<Rightarrow> (h, acks @ acks', r''))
      | stop \<Rightarrow> stop)"

section \<open>The tasks of a session\<close>

text \<open>The heartbeat ticker: per tick the clock and whether the outbound channel took the message.\<close>

fun heartbeat_loop :: "(datetime \<times> bool) list \<Rightarrow> u64 \<Rightarrow> agent_message list \<times> agent_event list" where
  "heartbeat_loop [] sq = ([], [])"
| "heartbeat_loop ((now, open_channel) # ticks) sq =
     (let sq = sat_add sq 1;
          msg = Heartbeat \<lparr>hb_at = Some (pb_now now), hb_seq = sq, hb_health = ''ok'', hb_active_connections = 0,
                           hb_cpu_load_avg = 0, hb_memory_rss_bytes = 0\<rparr>
      in if open_channel
         then (case heartbeat_loop ticks sq of (msgs, evs) \<Rightarrow> (msg # msgs, HeartbeatSent sq # evs))
         else ([], []))"

section \<open>One session\<close>

text \<open>
  The environment of a session: the nonce drawn, the network, the answer to opening the Channel, the
  inbound stream, the ticks of the four tasks, the stop flag read at the end, the final flush, and what
  the two aborted flush tasks and the producers still do after it. The tasks own the buffers and the
  reader owns the rest of the state, of which the status task reads one cell, at moments the ticks name;
  beyond that their interleaving only shows in the order of the outbound messages, which are kept per
  source.
\<close>

record 'b session_env =
  se_nonce :: string
  se_net :: transport
  se_open :: "channel \<Rightarrow> metadata \<Rightarrow> anyhow + unit"
  se_inbound :: "'b inbound list"
  se_heartbeats :: "(datetime \<times> bool) list"
  se_metrics_ticks :: nat
  se_metrics :: "nat \<Rightarrow> tick_env"
  se_log_ticks :: nat
  se_logs :: "nat \<Rightarrow> log_tick_env"
  se_status :: "status_tick list"
  se_stopping :: bool
  se_final_metrics :: "nat \<Rightarrow> shutdown_send"
  se_final_logs :: "nat \<Rightarrow> shutdown_log_send"
  se_metrics_rest :: "tail_op list"
  se_logs_rest :: "log_tail_op list"

record session_traffic =
  tr_acks :: "agent_message list"
  tr_heartbeats :: "agent_message list"
  tr_metrics :: flush_result
  tr_logs :: log_flush_result
  tr_status :: "agent_message list"
  tr_final :: "(shutdown_metrics \<times> shutdown_logs) option"
  tr_metrics_tail :: metrics_tail
  tr_logs_tail :: log_tail

datatype session_end = SessionOk | SessionErr anyhow | SessionPanic

definition channel_request :: "'b world \<Rightarrow> string \<Rightarrow> 'b runner \<Rightarrow> metadata" where
  "channel_request W nonce r =
     insert_channel_metadata (w_rules W) (w_headers W)
       \<lparr>cm_nonce = nonce, cm_version = version (cfg r), cm_process = process_id r,
        cm_heartbeat = heartbeat_interval (cfg r)\<rparr> (\<lambda>_. None)"

definition channel_instance_uid :: "'b world \<Rightarrow> 'b runner \<Rightarrow> string" where
  "channel_instance_uid W r =
     unwrap_or_default (Option.bind (current_jwt (client r)) (jwt_instance_uid (w_jwt W)))"

text \<open>Everything up to the established Channel.\<close>

definition open_channel :: "'b world \<Rightarrow> 'b session_env \<Rightarrow> 'b runner \<Rightarrow> (anyhow + string) \<times> 'b runner" where
  "open_channel W e r =
     (let request = channel_request W (se_nonce e) r
      in case authed_client (se_net e) (client r) of
           (Inl err, c) \<Rightarrow> (Inl err, r\<lparr>client := c\<rparr>)
         | (Inr a, c) \<Rightarrow>
             (let r = r\<lparr>client := c\<rparr>; uid = channel_instance_uid W r
              in case interceptor_call (w_rules W) (au_interceptor a) request of
                   Inl st \<Rightarrow> (Inl [StatusCause st (st_message st)], r)
                 | Inr md \<Rightarrow>
                     (case se_open e (au_channel a) md of
                        Inl err \<Rightarrow> (Inl err, r)
                      | Inr _ \<Rightarrow> (Inr uid, emit ChannelConnected r))))"

fun session_end_of :: "handled \<Rightarrow> session_end" where
  "session_end_of Continue = SessionOk"
| "session_end_of FutureDropped = SessionOk"
| "session_end_of (SessionFailed e) = SessionErr e"
| "session_end_of Panicked = SessionPanic"

text \<open>
  The cell of the running configuration's hash while a session reads: its content once the reader has
  gone through the first \<open>n\<close> inbound items. An item stores into it at most once, so a load in the middle
  of an item sees what a load just before or just after it sees.
\<close>

definition hash_cell :: "'b world \<Rightarrow> string \<Rightarrow> string \<Rightarrow> 'b inbound list \<Rightarrow> 'b runner \<Rightarrow> nat \<Rightarrow> string option" where
  "hash_cell W nonce uid items r n = applied_config_hash (snd (snd (read_inbound W nonce uid (take n items) r)))"

text \<open>
  What follows the established Channel: the tasks, the reader, the aborts and the final flush. The
  tails are followed, through what is left of the aborted tasks, until both tasks are gone. A panic of
  the reader skips the aborts; the tasks then end with the channel, to the same effect.
\<close>

definition session_body :: "'b world \<Rightarrow> 'b session_env \<Rightarrow> string \<Rightarrow> 'b runner \<Rightarrow> session_end \<times> session_traffic \<times> 'b runner" where
  "session_body W e uid r =
     (let (hb_msgs, hb_events) = heartbeat_loop (se_heartbeats e) 0;
          m = flush_loop (w_enums W) (se_metrics_ticks e) (se_metrics e) (metrics r);
          l = log_flush_loop (w_enums W) (se_log_ticks e) (se_logs e) (logs r);
          status_msgs = (if has_status_source (hook r)
                         then fst (status_loop (hash_cell W (se_nonce e) uid (se_inbound e) r) (se_status e))
                         else []);
          (h, acks, r) = read_inbound W (se_nonce e) uid (se_inbound e) r;
          final = (if h \<noteq> Panicked \<and> se_stopping e
                   then Some (flush_remaining (w_enums W) (se_final_metrics e) (se_final_logs e) (tail_of m) (log_tail_of l))
                   else None);
          (mt, lt) = (case final of None \<Rightarrow> (tail_of m, log_tail_of l) | Some (fm, fl) \<Rightarrow> (sm_after fm, sl_after fl));
          mt = settle (w_enums W) (se_metrics_rest e) mt;
          lt = log_settle (w_enums W) (se_logs_rest e) lt
      in (session_end_of h,
          \<lparr>tr_acks = acks, tr_heartbeats = hb_msgs, tr_metrics = m, tr_logs = l, tr_status = status_msgs,
           tr_final = final, tr_metrics_tail = mt, tr_logs_tail = lt\<rparr>,
          r\<lparr>metrics := mt_buf mt, logs := lt_buf lt, sent_events := sent_events r @ hb_events\<rparr>))"

definition run_session :: "'b world \<Rightarrow> 'b session_env \<Rightarrow> 'b runner \<Rightarrow> session_end \<times> session_traffic option \<times> 'b runner" where
  "run_session W e r =
     (case open_channel W e r of
        (Inl err, r) \<Rightarrow> (SessionErr err, None, r)
      | (Inr uid, r) \<Rightarrow> (case session_body W e uid r of (res, traffic, r) \<Rightarrow> (res, Some traffic, r)))"

section \<open>Register\<close>

text \<open>
  \<open>retry_with_backoff\<close> over a list of attempts, each with the random factor of the delay that
  follows a failure. Every failure is retried; \<open>StillTrying\<close> says that the attempts observed so
  far all failed. The sleeps are listed.
\<close>

datatype 'a retried = Succeeded 'a | StillTrying | RetryPanicked

fun retry_with_backoff ::
  "(('s, anyhow, 'a) action \<times> rat) list \<Rightarrow> backoff \<Rightarrow> 's \<Rightarrow> 'a retried \<times> duration list \<times> 's" where
  "retry_with_backoff [] bo s = (StillTrying, [], s)"
| "retry_with_backoff ((attempt_op, factor) # attempts) bo s =
     (case attempt_op s of
        (Inr v, s') \<Rightarrow> (Succeeded v, [], s')
      | (Inl _, s') \<Rightarrow>
          (case next_delay factor bo of
             (None, _) \<Rightarrow> (RetryPanicked, [], s')
           | (Some d, bo') \<Rightarrow>
               (case retry_with_backoff attempts bo' s' of (res, ds, s'') \<Rightarrow> (res, d # ds, s''))))"

record host_info =
  hi_os :: string
  hi_arch :: string
  hi_hostname :: string
  hi_kernel_version :: string

record register_request =
  rq_bootstrap_token :: string
  rq_instance_uid :: string
  rq_version :: string
  rq_labels :: "(string \<times> string) list"
  rq_capabilities :: "string list"
  rq_addressable_endpoints :: "string list"
  rq_host :: "host_info option"

record register_response =
  rr_instance_id :: string
  rr_instance_jwt :: string
  rr_cp_endpoint :: string
  rr_client_cert_pem :: string
  rr_client_key_pem :: string
  rr_ca_chain_pem :: string
  rr_payload_dek :: bytes
  rr_payload_dek_version :: u32

record register_env =
  re_os :: string
  re_arch :: string
  re_env_var :: "string \<Rightarrow> string option"
  re_attempts :: "(transport \<times> (channel \<Rightarrow> register_request \<Rightarrow> anyhow + register_response) \<times> rat) list"
  re_now :: datetime
  re_io :: io

datatype registered = RegisterOk stored_creds | RegisterErr anyhow | RegisterRetrying | RegisterPanic

definition register_request_of :: "register_env \<Rightarrow> string \<Rightarrow> agent_runner_config \<Rightarrow> register_request" where
  "register_request_of e token c =
     \<lparr>rq_bootstrap_token = token, rq_instance_uid = instance_uid c, rq_version = version c, rq_labels = [],
      rq_capabilities = [''control_plane_client''], rq_addressable_endpoints = [],
      rq_host = Some \<lparr>hi_os = re_os e, hi_arch = re_arch e,
                      hi_hostname = unwrap_or_default (hostname (re_env_var e)), hi_kernel_version = []\<rparr>\<rparr>"

definition creds_of_response :: "creds_packages \<Rightarrow> datetime \<Rightarrow> register_response \<Rightarrow> stored_creds" where
  "creds_of_response P now resp =
     \<lparr>sc_instance_id = rr_instance_id resp, sc_instance_jwt = rr_instance_jwt resp,
      sc_cp_endpoint = rr_cp_endpoint resp, sc_issued_at = now,
      sc_client_cert_pem = rr_client_cert_pem resp, sc_client_key_pem = rr_client_key_pem resp,
      sc_ca_chain_pem = rr_ca_chain_pem resp,
      sc_payload_dek_b64 = (if rr_payload_dek resp = [] then [] else b64_encode (cr_b64 P) (rr_payload_dek resp)),
      sc_payload_dek_version = rr_payload_dek_version resp\<rparr>"

text \<open>Writing the file and setting its mode are best effort.\<close>

definition write_creds :: "creds_packages \<Rightarrow> io \<Rightarrow> path \<Rightarrow> stored_creds \<Rightarrow> fs \<Rightarrow> fs" where
  "write_creds P io dir creds s =
     snd (fs_chmod io (creds_path dir) mode_600
       (snd (fs_write io (creds_path dir) (json_print (cr_text P) (creds_to_json P creds)) s)))"

definition install_on :: "creds_packages \<Rightarrow> stored_creds \<Rightarrow> 'b runner \<Rightarrow> 'b runner" where
  "install_on P creds r =
     (case install_creds P creds (client r, payload_dek r) of
        (c, slot) \<Rightarrow> r\<lparr>client := c, payload_dek := slot\<rparr>)"

definition register_fresh :: "'b world \<Rightarrow> register_env \<Rightarrow> 'b runner \<Rightarrow> registered \<times> duration list \<times> 'b runner" where
  "register_fresh W e r =
     (case extract_token (enrollment_url (cfg r)) of
        Inl err \<Rightarrow> (RegisterErr err, [], r)
      | Inr token \<Rightarrow>
          (let req = register_request_of e token (cfg r);
               attempts = map (\<lambda>(net, answer, factor). (client_register net answer req, factor)) (re_attempts e)
           in case retry_with_backoff attempts
                     (backoff_new (backoff_initial (cfg r)) (backoff_max (cfg r)) True) (client r) of
                (StillTrying, ds, c) \<Rightarrow> (RegisterRetrying, ds, r\<lparr>client := c\<rparr>)
              | (RetryPanicked, ds, c) \<Rightarrow> (RegisterPanic, ds, r\<lparr>client := c\<rparr>)
              | (Succeeded resp, ds, c) \<Rightarrow>
                  (let r = emit (Registered (rr_instance_id resp)) (r\<lparr>client := c\<rparr>);
                       creds = creds_of_response (w_creds W) (re_now e) resp;
                       r = r\<lparr>disk := write_creds (w_creds W) (re_io e) (state_dir (cfg r)) creds (disk r)\<rparr>
                   in (RegisterOk creds, ds, install_on (w_creds W) creds r))))"

section \<open>The run loop\<close>

text \<open>
  One iteration: the stop flag at its head, the clock, the two places where it may register, the
  session, the random factor of its delay and the file system when creds are discarded.
\<close>

record 'b loop_env =
  le_stopping :: bool
  le_now :: int
  le_register_before :: register_env
  le_session :: "'b session_env"
  le_factor :: rat
  le_discard_io :: io
  le_register_after :: register_env

text \<open>How an iteration ends; \<open>LoopNext\<close> carries the sleep the iteration made.\<close>

datatype loop_end =
    LoopStopped | LoopFailed anyhow | LoopRegistering | LoopPanic | LoopNext duration

definition after_register :: "(backoff \<times> 'b runner \<Rightarrow> loop_end \<times> backoff \<times> 'b runner) \<Rightarrow> backoff
     \<Rightarrow> registered \<times> duration list \<times> 'b runner \<Rightarrow> loop_end \<times> backoff \<times> 'b runner" where
  "after_register continue bo res =
     (case res of
        (RegisterOk _, _, r) \<Rightarrow> continue (bo, r)
      | (RegisterErr err, _, r) \<Rightarrow> (LoopFailed err, bo, r)
      | (RegisterRetrying, _, r) \<Rightarrow> (LoopRegistering, bo, r)
      | (RegisterPanic, _, r) \<Rightarrow> (LoopPanic, bo, r))"

definition disconnected :: "anyhow \<Rightarrow> 'b runner \<Rightarrow> 'b runner" where
  "disconnected err r = emit (ChannelDisconnected (describe_session_error err)) r"

definition reset_client :: "'b runner \<Rightarrow> 'b runner" where
  "reset_client r = r\<lparr>client := reset (client r)\<rparr>"

definition after_session ::
  "'b world \<Rightarrow> 'b loop_env \<Rightarrow> session_end \<Rightarrow> backoff \<times> 'b runner \<Rightarrow> loop_end \<times> backoff \<times> 'b runner" where
  "after_session W e res = (\<lambda>(bo, r).
     case res of
       SessionPanic \<Rightarrow> (LoopPanic, bo, r)
     | SessionOk \<Rightarrow> (LoopNext 0, backoff_reset bo, r)
     | SessionErr err \<Rightarrow>
         (if is_credential_rejection err
          then (case next_delay (le_factor e) bo of
                  (None, bo) \<Rightarrow> (LoopPanic, bo, r)
                | (Some delay, bo) \<Rightarrow>
                    (let r = reset_client (disconnected err r)
                     in case extract_token (enrollment_url (cfg r)) of
                          Inl _ \<Rightarrow> (LoopNext delay, bo, r)
                        | Inr _ \<Rightarrow>
                            (let r = r\<lparr>disk := discard_stored_creds (le_discard_io e) (state_dir (cfg r)) (disk r)\<rparr>
                             in after_register (\<lambda>(bo, r). (LoopNext delay, bo, r)) bo
                                  (register_fresh W (le_register_after e) r))))
          else case slot_retry_in (w_rules W) (w_headers W) err of
                 Some retry_in \<Rightarrow>
                   (let r = disconnected err r;
                        r = (if has_license_applier (hook r)
                             then r\<lparr>hook := (hook r)\<lparr>slot_waits := slot_waits (hook r) @ [retry_in]\<rparr>\<rparr> else r)
                    in (LoopNext retry_in, bo, r))
               | None \<Rightarrow>
                   (case next_delay (le_factor e) bo of
                      (None, bo) \<Rightarrow> (LoopPanic, bo, r)
                    | (Some delay, bo) \<Rightarrow> (LoopNext delay, bo, reset_client (disconnected err r)))))"

definition token_exp :: "'b world \<Rightarrow> 'b runner \<Rightarrow> int option" where
  "token_exp W r = Option.bind (current_jwt (client r)) (jwt_exp (w_jwt W))"

text \<open>The replacement of a token that is due, before the session.\<close>

definition refresh_token ::
  "'b world \<Rightarrow> 'b loop_env \<Rightarrow> (backoff \<times> 'b runner \<Rightarrow> loop_end \<times> backoff \<times> 'b runner)
     \<Rightarrow> backoff \<Rightarrow> 'b runner \<Rightarrow> loop_end \<times> backoff \<times> 'b runner" where
  "refresh_token W e continue bo r =
     (if expires_within (token_exp W r) (le_now e) (token_refresh_window (heartbeat_interval (cfg r)))
      then (case extract_token (enrollment_url (cfg r)) of
              Inr _ \<Rightarrow> after_register continue bo (register_fresh W (le_register_before e) r)
            | Inl _ \<Rightarrow> continue (bo, r))
      else continue (bo, r))"

definition loop_iteration :: "'b world \<Rightarrow> 'b loop_env \<Rightarrow> backoff \<Rightarrow> 'b runner \<Rightarrow> loop_end \<times> backoff \<times> 'b runner" where
  "loop_iteration W e bo r =
     (if le_stopping e then (LoopStopped, bo, r\<lparr>shutdown_finished := True\<rparr>)
      else refresh_token W e (\<lambda>(bo, r).
             case run_session W (le_session e) r of
               (res, _, r) \<Rightarrow> after_session W e res (bo, r)) bo r)"

text \<open>The loop over the iterations observed: their sleeps and how the last one ended.\<close>

fun loop_from :: "'b world \<Rightarrow> 'b loop_env list \<Rightarrow> backoff \<Rightarrow> 'b runner \<Rightarrow> duration list \<times> loop_end option \<times> 'b runner" where
  "loop_from W [] bo r = ([], None, r)"
| "loop_from W (e # es) bo r =
     (case loop_iteration W e bo r of
        (LoopNext d, bo', r') \<Rightarrow> (case loop_from W es bo' r' of (ds, fin, r'') \<Rightarrow> (d # ds, fin, r''))
      | (fin, _, r') \<Rightarrow> ([], Some fin, r'))"

definition run_loop :: "'b world \<Rightarrow> 'b loop_env list \<Rightarrow> 'b runner \<Rightarrow> duration list \<times> loop_end option \<times> 'b runner" where
  "run_loop W es r = loop_from W es (backoff_new (backoff_initial (cfg r)) (backoff_max (cfg r)) True) r"

section \<open>Start\<close>

text \<open>Reading the cached credentials, and reloading the last known good configuration, at start.\<close>

definition cached_creds :: "'b world \<Rightarrow> io \<Rightarrow> 'b runner \<Rightarrow> stored_creds option" where
  "cached_creds W io r =
     (case fst (read_stored_creds (w_creds W) io (state_dir (cfg r)) (disk r)) of
        Inl _ \<Rightarrow> None | Inr c \<Rightarrow> Some c)"

definition preload_lkg :: "'b world \<Rightarrow> io \<Rightarrow> rng \<Rightarrow> 'b runner \<Rightarrow> (lkg_error + unit) \<times> 'b runner" where
  "preload_lkg W io rng r =
     (case load_bundle (w_lkg W) io rng (in_state_dir (state_dir (cfg r))) (disk r) of
        (Inr (Some (hash, _)), s) \<Rightarrow>
          (Inr (), emit (ConfigReceived hash) (r\<lparr>disk := s, applied_config_hash := Some hash\<rparr>))
      | (Inr None, s) \<Rightarrow> (Inr (), r\<lparr>disk := s\<rparr>)
      | (Inl err, s) \<Rightarrow> (Inl err, r\<lparr>disk := s\<rparr>))"

record start_env =
  sa_mkdir_io :: io
  sa_creds_io :: io
  sa_register :: register_env
  sa_lkg_io :: io
  sa_rng :: rng

definition use_bootstrap_ca :: "'b runner \<Rightarrow> 'b runner" where
  "use_bootstrap_ca r =
     (case bootstrap_ca_pem (cfg r) of
        None \<Rightarrow> r
      | Some ca \<Rightarrow> r\<lparr>client := set_tls (Some \<lparr>ca_pem = ca, client_cert_pem = [], client_key_pem = [],
                                             server_name = None\<rparr>) (client r)\<rparr>)"

datatype run_end = RunIoError io_error | RunEnd "loop_end option"

text \<open>From installed credentials on: the preload, then the loop.\<close>

definition run_with_creds :: "'b world \<Rightarrow> start_env \<Rightarrow> 'b loop_env list \<Rightarrow> 'b runner \<Rightarrow> run_end \<times> 'b runner" where
  "run_with_creds W e es r =
     (case preload_lkg W (sa_lkg_io e) (sa_rng e) r of
        (preloaded, r) \<Rightarrow>
          (if preloaded = Inl LkgPanic then (RunEnd (Some LoopPanic), r)
           else case run_loop W es r of (_, fin, r) \<Rightarrow> (RunEnd fin, r)))"

definition run :: "'b world \<Rightarrow> start_env \<Rightarrow> 'b loop_env list \<Rightarrow> 'b runner \<Rightarrow> run_end \<times> 'b runner" where
  "run W e es r =
     (case create_dir_all (sa_mkdir_io e) (state_dir (cfg r)) (disk r) of
        (Inl err, s) \<Rightarrow> (RunIoError err, r\<lparr>disk := s\<rparr>)
      | (Inr _, s) \<Rightarrow>
          (let r = use_bootstrap_ca (r\<lparr>disk := s\<rparr>)
           in case cached_creds W (sa_creds_io e) r of
                Some creds \<Rightarrow> run_with_creds W e es (install_on (w_creds W) creds r)
              | None \<Rightarrow>
                  (case register_fresh W (sa_register e) r of
                     (RegisterOk _, _, r) \<Rightarrow> run_with_creds W e es r
                   | (RegisterErr err, _, r) \<Rightarrow> (RunEnd (Some (LoopFailed err)), r)
                   | (RegisterRetrying, _, r) \<Rightarrow> (RunEnd (Some LoopRegistering), r)
                   | (RegisterPanic, _, r) \<Rightarrow> (RunEnd (Some LoopPanic), r))))"

end
