(* ===== verification/AgentCorrect.thy ===== *)
theory AgentCorrect
  imports Agent
begin

text \<open>
  What the runner guarantees: its invariant over every run, the ledger of a whole session including
  the shutdown flush, truthful acknowledgements and bound licence deliveries, the token life time at
  every connect, and what happens to credentials when they are rejected.
\<close>

section \<open>The runner invariant\<close>

text \<open>
  Both telemetry buffers are well formed, and every data key in the slot is usable.
\<close>

definition runner_ok :: "'b runner \<Rightarrow> bool" where
  "runner_ok r \<longleftrightarrow> metrics_inv (metrics r) \<and> log_inv (logs r) \<and> (\<forall>h. payload_dek r = Some h \<longrightarrow> dek_ok h)"

lemma emit_sel [simp]:
  "cfg (emit e r) = cfg r" "client (emit e r) = client r" "metrics (emit e r) = metrics r"
  "logs (emit e r) = logs r" "quota (emit e r) = quota r" "payload_dek (emit e r) = payload_dek r"
  "applied_config_hash (emit e r) = applied_config_hash r" "process_id (emit e r) = process_id r"
  "hook (emit e r) = hook r" "disk (emit e r) = disk r" "shutdown_finished (emit e r) = shutdown_finished r"
  by (simp_all add: emit_def)

lemma dek_install_ok:
  "(\<forall>h. slot = Some h \<longrightarrow> dek_ok h) \<Longrightarrow> install_payload_dek_from_creds P creds slot = Some h \<Longrightarrow> dek_ok h"
  by (auto simp: install_payload_dek_from_creds_def split: if_splits option.splits sum.splits dest: from_proto_ok)

lemma rotate_dek_ok:
  "(\<forall>h. slot = Some h \<longrightarrow> dek_ok h) \<Longrightarrow> rotate_dek cr slot = Some h \<Longrightarrow> dek_ok h"
  by (auto simp: rotate_dek_def split: if_splits option.splits sum.splits dest: from_proto_ok)

text \<open>What the operations outside the session leave alone.\<close>

definition same_config :: "'b runner \<Rightarrow> 'b runner \<Rightarrow> bool" where
  "same_config r r' \<longleftrightarrow> cfg r' = cfg r \<and> process_id r' = process_id r"

lemma handle_config_update_frame:
  "handle_config_update W e u r = (h, acks, r') \<Longrightarrow>
     cfg r' = cfg r \<and> process_id r' = process_id r \<and> metrics r' = metrics r \<and> logs r' = logs r
     \<and> payload_dek r' = payload_dek r \<and> client r' = client r \<and> quota r' = quota r
     \<and> applied_licences (hook r') = applied_licences (hook r) \<and> shutdown_finished r' = shutdown_finished r"
  by (auto simp: handle_config_update_def save_lkg_def finish_config_update_def Let_def
      split: prod.splits option.splits if_splits apply_outcome.splits ack_outcome.splits)

lemma handle_rotation_frame:
  "cfg (handle_rotation W e cr r) = cfg r" "process_id (handle_rotation W e cr r) = process_id r"
  "metrics (handle_rotation W e cr r) = metrics r" "logs (handle_rotation W e cr r) = logs r"
  "hook (handle_rotation W e cr r) = hook r" "quota (handle_rotation W e cr r) = quota r"
  "applied_config_hash (handle_rotation W e cr r) = applied_config_hash r"
  "channel (client (handle_rotation W e cr r)) = channel (client r)"
  "endpoint (client (handle_rotation W e cr r)) = endpoint (client r)"
  "sent_events (handle_rotation W e cr r) = sent_events r"
  "shutdown_finished (handle_rotation W e cr r) = shutdown_finished r"
  by (simp_all add: handle_rotation_def Let_def split: sum.splits)

lemma handle_rotation_dek:
  "payload_dek (handle_rotation W e cr r)
     = (if rot_instance_jwt cr = [] then payload_dek r else rotate_dek cr (payload_dek r))"
  by (simp add: handle_rotation_def Let_def split: sum.splits)

lemma handle_license_frame:
  "handle_license_update W e nonce uid u r = (h, acks, r') \<Longrightarrow>
     cfg r' = cfg r \<and> process_id r' = process_id r \<and> metrics r' = metrics r \<and> logs r' = logs r
     \<and> payload_dek r' = payload_dek r \<and> client r' = client r \<and> quota r' = quota r
     \<and> applied_config_hash r' = applied_config_hash r \<and> shutdown_finished r' = shutdown_finished r"
  by (auto simp: handle_license_update_def Let_def split: if_splits)

lemma handle_message_ok:
  assumes "runner_ok r" and "handle_message W e nonce uid kind r = (h, acks, r')"
  shows "runner_ok r' \<and> same_config r r' \<and> metrics r' = metrics r \<and> logs r' = logs r"
proof (cases kind)
  case (Some k)
  show ?thesis
    using assms
    by (cases k)
      (auto simp: handle_message_def Some runner_ok_def same_config_def handle_rotation_frame handle_rotation_dek
        dest!: handle_config_update_frame handle_license_frame dest: rotate_dek_ok split: if_splits)
qed (use assms in \<open>simp add: handle_message_def same_config_def\<close>)

text \<open>An invariant of every single message is one of the whole inbound stream.\<close>

lemma read_inbound_invariant:
  assumes "\<And>e kind r h acks r'. I r \<Longrightarrow> handle_message W e nonce uid kind r = (h, acks, r') \<Longrightarrow> I r'"
    and "I r" and "read_inbound W nonce uid items r = (h, acks, r')"
  shows "I r'"
  using assms(2,3)
proof (induction items arbitrary: r h acks r')
  case (Cons item items)
  show ?case
  proof (cases item)
    case (Message e kind)
    obtain h1 acks1 r1 where m: "handle_message W e nonce uid kind r = (h1, acks1, r1)"
      by (cases "handle_message W e nonce uid kind r")
    have "I r1" using assms(1)[OF Cons.prems(1) m] .
    then show ?thesis
      using Cons.prems(2) Cons.IH[of r1] m by (cases h1) (auto simp: Message split: prod.splits)
  qed (use Cons.prems in auto)
qed simp

lemma read_inbound_ok:
  assumes "runner_ok r" and "read_inbound W nonce uid items r = (h, acks, r')"
  shows "runner_ok r' \<and> same_config r r' \<and> metrics r' = metrics r \<and> logs r' = logs r"
proof (rule read_inbound_invariant[where I = "\<lambda>r'. runner_ok r' \<and> same_config r r' \<and> metrics r' = metrics r \<and> logs r' = logs r"])
  show "runner_ok r2 \<and> same_config r r2 \<and> metrics r2 = metrics r \<and> logs r2 = logs r"
    if "runner_ok r1 \<and> same_config r r1 \<and> metrics r1 = metrics r \<and> logs r1 = logs r"
      and "handle_message W e nonce uid kind r1 = (h, acks, r2)" for e kind r1 h acks r2
    using handle_message_ok[of r1 W e nonce uid kind h acks r2] that by (simp add: same_config_def)
qed (use assms in \<open>auto simp: same_config_def\<close>)

section \<open>Heartbeats\<close>

text \<open>
  The heartbeats of a session: as long as the outbound channel takes them, the \<open>i\<close>-th one carries
  the next sequence number (saturating at the top of \<open>u64\<close>) and that tick's clock, and each one sent
  is announced by exactly one event with its number; the first one refused ends the ticker and is
  not announced.
\<close>

lemma heartbeats_are_numbered:
  assumes "heartbeat_loop ticks sq = (msgs, evs)"
  shows "length msgs = length (takeWhile snd ticks) \<and> length evs = length msgs
    \<and> (\<forall>i < length msgs. \<exists>h. msgs ! i = Heartbeat h \<and> evs ! i = HeartbeatSent (hb_seq h)
         \<and> hb_at h = Some (pb_now (fst (ticks ! i))) \<and> unat (hb_seq h) = min (unat sq + Suc i) (2 ^ 64 - 1))"
  using assms
proof (induction ticks arbitrary: sq msgs evs)
  case (Cons tick ticks)
  obtain now up where tick: "tick = (now, up)" by (cases tick)
  show ?case
  proof (cases up)
    case True
    obtain ms es where rest: "heartbeat_loop ticks (sat_add sq 1) = (ms, es)"
      by (cases "heartbeat_loop ticks (sat_add sq 1)")
    have up_one: "unat (sat_add sq 1 :: u64) = min (unat sq + 1) (2 ^ 64 - 1)" by (simp add: unat_sat_add)
    note Cons.IH[OF rest, unfolded up_one]
    then show ?thesis
      using Cons.prems True rest up_one by (auto simp: tick Let_def nth_Cons split: nat.splits)
  qed (use Cons.prems tick in \<open>simp add: Let_def\<close>)
qed simp

section \<open>What a session leaves\<close>

lemma log_flush_loop_inv: "log_inv b \<Longrightarrow> log_inv (log_after (log_flush_loop pe k env b))"
  using log_flush_ledger by blast

lemma flush_loop_inv: "metrics_inv b \<Longrightarrow> metrics_inv (after (flush_loop pe k env b))"
  using flush_loop_balanced by (simp add: balanced_def)

lemma open_channel_frame:
  assumes "open_channel W e r = (res, r')"
  shows "r' = r\<lparr>client := client r', sent_events := sent_events r'\<rparr>"
  using assms by (auto simp: open_channel_def Let_def emit_def split: prod.splits sum.splits)

lemma runner_ok_frame:
  "runner_ok r \<Longrightarrow> metrics r' = metrics r \<Longrightarrow> logs r' = logs r \<Longrightarrow> payload_dek r' = payload_dek r \<Longrightarrow> runner_ok r'"
  by (simp add: runner_ok_def)

definition final_metrics :: "session_traffic \<Rightarrow> shutdown_metrics option" where
  "final_metrics t = map_option fst (tr_final t)"

definition final_logs :: "session_traffic \<Rightarrow> shutdown_logs option" where
  "final_logs t = map_option snd (tr_final t)"

text \<open>The tails when the final flush, if there is one, is over.\<close>

definition flushed_tail :: "session_traffic \<Rightarrow> metrics_tail" where
  "flushed_tail t = (case final_metrics t of None \<Rightarrow> tail_of (tr_metrics t) | Some m \<Rightarrow> sm_after m)"

definition flushed_log_tail :: "session_traffic \<Rightarrow> log_tail" where
  "flushed_log_tail t = (case final_logs t of None \<Rightarrow> log_tail_of (tr_logs t) | Some l \<Rightarrow> sl_after l)"

lemma session_body_cases:
  assumes "session_body W e uid r = (res, t, r')"
  obtains h acks r1 hb where "read_inbound W (se_nonce e) uid (se_inbound e) r = (h, acks, r1)"
    and "res = session_end_of h" and "tr_acks t = acks"
    and "tr_metrics t = flush_loop (w_enums W) (se_metrics_ticks e) (se_metrics e) (metrics r)"
    and "tr_logs t = log_flush_loop (w_enums W) (se_log_ticks e) (se_logs e) (logs r)"
    and "tr_final t = (if h \<noteq> Panicked \<and> se_stopping e
           then Some (flush_remaining (w_enums W) (se_final_metrics e) (se_final_logs e)
                        (tail_of (tr_metrics t)) (log_tail_of (tr_logs t)))
           else None)"
    and "tr_metrics_tail t = settle (w_enums W) (se_metrics_rest e) (flushed_tail t)"
    and "tr_logs_tail t = log_settle (w_enums W) (se_logs_rest e) (flushed_log_tail t)"
    and "r' = r1\<lparr>metrics := mt_buf (tr_metrics_tail t), logs := lt_buf (tr_logs_tail t), sent_events := sent_events r1 @ hb\<rparr>"
proof -
  obtain hbm hb where hb: "heartbeat_loop (se_heartbeats e) 0 = (hbm, hb)"
    by (cases "heartbeat_loop (se_heartbeats e) 0")
  obtain h acks r1 where ri: "read_inbound W (se_nonce e) uid (se_inbound e) r = (h, acks, r1)"
    by (cases "read_inbound W (se_nonce e) uid (se_inbound e) r")
  show thesis
    using that[OF ri, of hb] assms hb ri
    by (auto simp: session_body_def Let_def flushed_tail_def flushed_log_tail_def final_metrics_def final_logs_def
        split: prod.splits if_splits)
qed

lemma tail_of_balance: "tail_balance c (tail_of m) = owed c (after m)" "mt_buf (tail_of m) = after m"
  by (simp_all add: tail_of_def tail_balance_def in_flight_def lost_worth_def)

lemma log_tail_of_balance: "log_tail_balance (log_tail_of l) = log_lane.owed (log_after l)" "lt_buf (log_tail_of l) = log_after l"
  by (simp_all add: log_tail_of_def log_tail_balance_def log_in_flight_def lost_lines_def)

lemma session_final:
  assumes "session_body W e uid r = (res, t, r')"
  shows "final_metrics t = (if res \<noteq> SessionPanic \<and> se_stopping e
      then Some (flush_remaining_metrics (w_enums W) MAX_SHUTDOWN_FLUSH_BATCHES (se_final_metrics e) (tail_of (tr_metrics t)))
      else None)"
    and "final_logs t = (if res \<noteq> SessionPanic \<and> se_stopping e
      then Some (snd (flush_remaining (w_enums W) (se_final_metrics e) (se_final_logs e) (tail_of (tr_metrics t)) (log_tail_of (tr_logs t))))
      else None)"
proof -
  have panic: "session_end_of h = SessionPanic \<longleftrightarrow> h = Panicked" for h by (cases h) simp_all
  from assms show "final_metrics t = (if res \<noteq> SessionPanic \<and> se_stopping e
      then Some (flush_remaining_metrics (w_enums W) MAX_SHUTDOWN_FLUSH_BATCHES (se_final_metrics e) (tail_of (tr_metrics t)))
      else None)"
    by (rule session_body_cases) (simp add: panic final_metrics_def flush_remaining_def Let_def)
  from assms show "final_logs t = (if res \<noteq> SessionPanic \<and> se_stopping e
      then Some (snd (flush_remaining (w_enums W) (se_final_metrics e) (se_final_logs e) (tail_of (tr_metrics t)) (log_tail_of (tr_logs t))))
      else None)"
    by (rule session_body_cases) (simp add: panic final_logs_def)
qed

text \<open>
  The lanes of a session from the flush loops to the settled tails: the invariants hold, nothing is in
  flight any more, and each lane balances.
\<close>

lemma session_metrics_tail:
  assumes "metrics_inv (metrics r)" and "session_body W e uid r = (res, t, r')"
  shows "metrics_inv (mt_buf (tr_metrics_tail t)) \<and> in_flight (tr_metrics_tail t) = None
    \<and> (\<forall>c. owed c (after (tr_metrics t))
         = sum_list (map (worth c \<circ> fst) (case final_metrics t of None \<Rightarrow> [] | Some m \<Rightarrow> sm_shipped m))
           + lost_worth c (Option.bind (final_metrics t) sm_lost) + tail_balance c (tr_metrics_tail t))"
proof -
  have inv: "metrics_inv (after (tr_metrics t))"
    by (rule session_body_cases[OF assms(2)]) (simp add: flush_loop_inv assms(1))
  have flushed: "metrics_inv (mt_buf (flushed_tail t)) \<and> (\<forall>c. owed c (after (tr_metrics t))
         = sum_list (map (worth c \<circ> fst) (case final_metrics t of None \<Rightarrow> [] | Some m \<Rightarrow> sm_shipped m))
           + lost_worth c (Option.bind (final_metrics t) sm_lost) + tail_balance c (flushed_tail t))"
    using flush_remaining_metrics_balanced[of "tail_of (tr_metrics t)"] inv
    by (auto simp: session_final(1)[OF assms(2)] flushed_tail_def tail_of_balance shutdown_balanced_def lost_worth_def[of _ None])
  have "tr_metrics_tail t = settle (w_enums W) (se_metrics_rest e) (flushed_tail t)"
    by (rule session_body_cases[OF assms(2)])
  with flushed settle_balance[of "flushed_tail t"] show ?thesis by simp
qed

lemma session_logs_tail:
  assumes "log_inv (logs r)" and "session_body W e uid r = (res, t, r')"
  shows "log_inv (lt_buf (tr_logs_tail t)) \<and> log_in_flight (tr_logs_tail t) = None
    \<and> log_lane.owed (log_after (tr_logs t))
         = sum_list (map (log_lane.worth \<circ> fst) (case final_logs t of None \<Rightarrow> [] | Some l \<Rightarrow> sl_shipped l))
           + lost_lines (Option.bind (final_logs t) sl_lost) + log_tail_balance (tr_logs_tail t)"
proof -
  have inv: "log_inv (log_after (tr_logs t))"
    by (rule session_body_cases[OF assms(2)]) (simp add: log_flush_loop_inv assms(1))
  have flushed: "log_inv (lt_buf (flushed_log_tail t)) \<and> log_lane.owed (log_after (tr_logs t))
         = sum_list (map (log_lane.worth \<circ> fst) (case final_logs t of None \<Rightarrow> [] | Some l \<Rightarrow> sl_shipped l))
           + lost_lines (Option.bind (final_logs t) sl_lost) + log_tail_balance (flushed_log_tail t)"
    using flush_remaining_logs_balanced[of "log_tail_of (tr_logs t)"] inv
    by (auto simp: session_final(2)[OF assms(2)] flush_remaining_def Let_def flushed_log_tail_def log_tail_of_balance
        shutdown_logs_balanced_def lost_lines_def[of None])
  have "tr_logs_tail t = log_settle (w_enums W) (se_logs_rest e) (flushed_log_tail t)"
    by (rule session_body_cases[OF assms(2)])
  with flushed log_settle_balance[of "flushed_log_tail t"] show ?thesis by simp
qed

lemma session_body_ok:
  assumes "runner_ok r" and "session_body W e uid r = (res, t, r')"
  shows "runner_ok r' \<and> same_config r r'"
proof -
  obtain h acks r1 hb where ri: "read_inbound W (se_nonce e) uid (se_inbound e) r = (h, acks, r1)"
    and r': "r' = r1\<lparr>metrics := mt_buf (tr_metrics_tail t), logs := lt_buf (tr_logs_tail t), sent_events := sent_events r1 @ hb\<rparr>"
    by (rule session_body_cases[OF assms(2)])
  have "metrics_inv (metrics r)" "log_inv (logs r)" using assms(1) by (simp_all add: runner_ok_def)
  with read_inbound_ok[OF assms(1) ri] session_metrics_tail[OF _ assms(2)] session_logs_tail[OF _ assms(2)]
  show ?thesis by (simp add: r' runner_ok_def same_config_def)
qed

lemma run_session_ok:
  assumes "runner_ok r" and "run_session W e r = (res, t, r')"
  shows "runner_ok r' \<and> same_config r r'"
proof -
  obtain o1 r1 where oc: "open_channel W e r = (o1, r1)" by (cases "open_channel W e r")
  note frame = open_channel_frame[OF oc]
  have ok1: "runner_ok r1 \<and> same_config r r1"
    using assms(1) by (subst frame, subst (2) frame) (simp add: runner_ok_def same_config_def)
  show ?thesis
  proof (cases o1)
    case (Inl err)
    with assms(2) oc ok1 show ?thesis by (simp add: run_session_def)
  next
    case (Inr uid)
    obtain res2 t2 r2 where sb: "session_body W e uid r1 = (res2, t2, r2)" by (cases "session_body W e uid r1")
    with assms(2) oc Inr have "r' = r2" by (simp add: run_session_def)
    with session_body_ok[OF _ sb] ok1 show ?thesis by (simp add: same_config_def)
  qed
qed

section \<open>The invariant over the run loop\<close>

text \<open>The invariant of the runner, relative to the runner it started as.\<close>

definition kept :: "'b runner \<Rightarrow> 'b runner \<Rightarrow> bool" where
  "kept r r' \<longleftrightarrow> runner_ok r' \<and> same_config r r'"

lemma kept_trans: "kept r r1 \<Longrightarrow> kept r1 r2 \<Longrightarrow> kept r r2"
  by (simp add: kept_def same_config_def)

lemma kept_frame:
  "kept r r1 \<Longrightarrow> metrics r2 = metrics r1 \<Longrightarrow> logs r2 = logs r1 \<Longrightarrow> payload_dek r2 = payload_dek r1
     \<Longrightarrow> cfg r2 = cfg r1 \<Longrightarrow> process_id r2 = process_id r1 \<Longrightarrow> kept r r2"
  by (simp add: kept_def same_config_def runner_ok_def)

lemma install_on_frame:
  "cfg (install_on P creds r) = cfg r" "process_id (install_on P creds r) = process_id r"
  "metrics (install_on P creds r) = metrics r" "logs (install_on P creds r) = logs r"
  "hook (install_on P creds r) = hook r" "disk (install_on P creds r) = disk r"
  "sent_events (install_on P creds r) = sent_events r"
  "payload_dek (install_on P creds r) = install_payload_dek_from_creds P creds (payload_dek r)"
  "jwt (client (install_on P creds r)) = Some (sc_instance_jwt creds)"
  by (simp_all add: install_on_def install_creds_def Let_def split: prod.splits)

lemma kept_install:
  assumes "kept r r1"
  shows "kept r (install_on P creds r1)"
proof -
  have "\<forall>h. payload_dek (install_on P creds r1) = Some h \<longrightarrow> dek_ok h"
    using assms dek_install_ok[of "payload_dek r1" P creds]
    unfolding install_on_frame kept_def runner_ok_def by blast
  with assms show ?thesis by (simp add: kept_def same_config_def runner_ok_def install_on_frame(1-4))
qed

lemma register_fresh_kept:
  assumes "kept r0 r" and "register_fresh W e r = (res, ds, r')"
  shows "kept r0 r'"
proof (cases "extract_token (enrollment_url (cfg r))")
  case (Inl err)
  with assms show ?thesis by (simp add: register_fresh_def)
next
  case (Inr token)
  let ?attempts = "map (\<lambda>(net, answer, factor). (client_register net answer (register_request_of e token (cfg r)), factor))
      (re_attempts e)"
  obtain rt ds1 c where rt: "retry_with_backoff ?attempts
      (backoff_new (backoff_initial (cfg r)) (backoff_max (cfg r)) True) (client r) = (rt, ds1, c)"
    by (cases "retry_with_backoff ?attempts (backoff_new (backoff_initial (cfg r)) (backoff_max (cfg r)) True) (client r)")
  have c: "kept r0 (r\<lparr>client := c\<rparr>)" using assms(1) by (rule kept_frame) simp_all
  show ?thesis
  proof (cases rt)
    case (Succeeded resp)
    have "kept r0 ((emit (Registered (rr_instance_id resp)) (r\<lparr>client := c\<rparr>))\<lparr>disk := s\<rparr>)" for s
      using c by (rule kept_frame) simp_all
    from kept_install[OF this] show ?thesis
      using assms(2) Inr rt Succeeded by (auto simp: register_fresh_def Let_def)
  qed (use assms(2) Inr rt c in \<open>auto simp: register_fresh_def Let_def\<close>)
qed

lemma after_register_kept:
  assumes "\<And>bo r'. kept r0 r' \<Longrightarrow> kept r0 (snd (snd (continue (bo, r'))))" and "kept r0 (snd (snd res))"
  shows "kept r0 (snd (snd (after_register continue bo res)))"
  using assms by (cases res; cases "fst res") (auto simp: after_register_def)

lemma reset_disconnected_kept: "kept r0 r \<Longrightarrow> kept r0 (reset_client (disconnected err r))"
  and disconnected_kept: "kept r0 r \<Longrightarrow> kept r0 (disconnected err r)"
  by (auto simp: reset_client_def disconnected_def elim: kept_frame)

lemma register_fresh_kept': "kept r0 r \<Longrightarrow> kept r0 (snd (snd (register_fresh W e r)))"
  using register_fresh_kept[of r0 r W e] by (cases "register_fresh W e r") auto

lemma after_session_kept:
  assumes "kept r0 r"
  shows "kept r0 (snd (snd (after_session W e res (bo, r))))"
proof (cases res)
  case (SessionErr err)
  let ?r1 = "reset_client (disconnected err r)"
  have k1: "kept r0 ?r1" using assms by (rule reset_disconnected_kept)
  have kd: "kept r0 (?r1\<lparr>disk := s\<rparr>)" for s using k1 by (rule kept_frame) simp_all
  have ks: "kept r0 (disconnected err r\<lparr>hook := x\<rparr>)" for x
    using disconnected_kept[OF assms, of err] by (rule kept_frame) simp_all
  have reg: "kept r0 (snd (snd (after_register (\<lambda>(bo, r). (LoopNext d, bo, r)) bo' (register_fresh W (le_register_after e)
      (?r1\<lparr>disk := s\<rparr>)))))" for d bo' s
    by (rule after_register_kept) (auto intro: register_fresh_kept'[OF kd])
  show ?thesis
    using assms k1 ks reg disconnected_kept[OF assms, of err]
    by (simp add: after_session_def SessionErr Let_def split: option.splits prod.splits sum.splits)
qed (use assms in \<open>simp_all add: after_session_def\<close>)

lemma loop_iteration_kept:
  assumes "kept r0 r"
  shows "kept r0 (snd (snd (loop_iteration W e bo r)))"
proof -
  let ?k = "\<lambda>(bo, r). case run_session W (le_session e) r of (res, _, r) \<Rightarrow> after_session W e res (bo, r)"
  have cont: "kept r0 (snd (snd (?k (bo, r1))))" if "kept r0 r1" for bo r1
  proof -
    obtain res t r2 where rs: "run_session W (le_session e) r1 = (res, t, r2)"
      by (cases "run_session W (le_session e) r1")
    have "kept r0 r2" using run_session_ok[OF _ rs] that by (auto simp: kept_def same_config_def)
    from after_session_kept[OF this] show ?thesis by (simp add: rs)
  qed
  have "kept r0 (r\<lparr>shutdown_finished := True\<rparr>)" using assms by (rule kept_frame) simp_all
  moreover have "kept r0 (snd (snd (after_register ?k bo (register_fresh W (le_register_before e) r))))"
    by (rule after_register_kept) (erule cont, rule register_fresh_kept'[OF assms])
  ultimately show ?thesis
    using cont[OF assms, of bo]
    by (simp add: loop_iteration_def refresh_token_def split: sum.splits)
qed

lemma loop_from_kept: "kept r0 r \<Longrightarrow> kept r0 (snd (snd (loop_from W es bo r)))"
proof (induction es arbitrary: bo r)
  case (Cons e es)
  obtain le bo' r' where it: "loop_iteration W e bo r = (le, bo', r')" by (cases "loop_iteration W e bo r")
  have "kept r0 r'" using loop_iteration_kept[OF Cons.prems, of W e bo] it by simp
  with Cons.IH[of r' bo'] show ?case by (cases le) (auto simp: it split: prod.splits)
qed simp

lemma preload_kept: "kept r0 r \<Longrightarrow> kept r0 (snd (preload_lkg W io rng r))"
  by (auto simp: preload_lkg_def elim: kept_frame split: prod.splits sum.splits option.splits)

lemma bootstrap_kept: "kept r0 r \<Longrightarrow> kept r0 (use_bootstrap_ca r)"
  by (auto simp: use_bootstrap_ca_def elim: kept_frame split: option.splits)

lemma run_with_creds_kept:
  assumes "kept r0 r"
  shows "kept r0 (snd (run_with_creds W e es r))"
proof -
  obtain res r1 where p: "preload_lkg W (sa_lkg_io e) (sa_rng e) r = (res, r1)"
    by (cases "preload_lkg W (sa_lkg_io e) (sa_rng e) r")
  have "kept r0 r1" using preload_kept[OF assms, of W "sa_lkg_io e" "sa_rng e"] p by simp
  with loop_from_kept[OF this] show ?thesis by (simp add: run_with_creds_def p run_loop_def split_def)
qed

lemma run_kept:
  assumes "kept r0 r"
  shows "kept r0 (snd (run W e es r))"
proof -
  obtain res s where mk: "create_dir_all (sa_mkdir_io e) (state_dir (cfg r)) (disk r) = (res, s)"
    by (cases "create_dir_all (sa_mkdir_io e) (state_dir (cfg r)) (disk r)")
  have k0: "kept r0 (r\<lparr>disk := s\<rparr>)" using assms by (rule kept_frame) simp_all
  let ?r1 = "use_bootstrap_ca (r\<lparr>disk := s\<rparr>)"
  have k1: "kept r0 ?r1" using k0 by (rule bootstrap_kept)
  obtain rg ds r2 where rg: "register_fresh W (sa_register e) ?r1 = (rg, ds, r2)"
    by (cases "register_fresh W (sa_register e) ?r1")
  have k2: "kept r0 r2" using register_fresh_kept[OF k1 rg] .
  show ?thesis
    using k0 k2 run_with_creds_kept[OF k2] run_with_creds_kept[OF kept_install[OF k1]]
    by (simp add: run_def mk rg Let_def split: sum.splits option.splits registered.splits)
qed

lemma log_inv_new: "log_inv log_new" and metrics_inv_new: "metrics_inv new"
  by (simp_all add: log_inv_def log_new_def new_def DEFAULT_LOG_BUFFER_CAP_def)

section \<open>Properties\<close>

text \<open>
  C9. The runner's invariant holds at the end of every run, whatever the control plane, the network,
  the disk, the producers and the clock do, from the first start through any number of iterations of
  the loop: both telemetry buffers are well formed, a data key in the slot is always a usable one, and
  the configuration and the process id are those the runner was built with.
\<close>

theorem runner_invariant:
  "let r' = snd (run W e es (runner_new process s c)) in
     metrics_inv (metrics r') \<and> log_inv (logs r') \<and> pred_option dek_ok (payload_dek r')
     \<and> cfg r' = c \<and> process_id r' = process"
proof -
  have "kept (runner_new process s c) (runner_new process s c)"
    by (simp add: kept_def runner_ok_def same_config_def runner_new_def metrics_inv_new log_inv_new)
  from run_kept[OF this, of W e es] show ?thesis
    by (cases "payload_dek (snd (run W e es (runner_new process s c)))")
      (simp_all add: kept_def runner_ok_def same_config_def runner_new_def Let_def)
qed

text \<open>
  Over a whole session: the calls recorded, and the batches handed to the outbound channel by the
  flush loop, by the final flush, and by the flush task between the abort and its end.
\<close>

definition session_calls :: "session_traffic \<Rightarrow> tool_call_sample list" where
  "session_calls t = produced (meanwhile (tr_metrics t)) @ produced (mt_calls (tr_metrics_tail t))"

definition session_shipped :: "session_traffic \<Rightarrow> (drained \<times> agent_message) list" where
  "session_shipped t = shipped (tr_metrics t) @ (case final_metrics t of None \<Rightarrow> [] | Some m \<Rightarrow> sm_shipped m)
     @ mt_task_shipped (tr_metrics_tail t)"

lemma ledger_settled:
  fixes a m s x f l y ts k :: u64
  assumes "a + m = s + x" and "x = f + l + (y + ts - k)"
  shows "a + (m + k) = s + (f + ts) + l + y"
proof -
  have "a + (m + k) = s + (x + k)" using assms(1) by (simp flip: add.assoc)
  then show ?thesis by (simp add: assms(2))
qed

text \<open>
  Billing over a whole session, shutdown included: the billable calls the buffer owed when the
  session opened plus those recorded during it are those shipped by the flush loop, by the final flush
  and by the aborted flush task on its way out, each with the drops its reports carry, plus what the
  buffer owes afterwards, plus the one batch the final flush may lose. Such a batch exists only if the
  outbound channel closed during a final flush, so a session that is not a shutdown loses nothing.
\<close>

theorem session_billing_ledger:
  assumes "runner_ok r" and "run_session W e r = (res, Some t, r')"
  shows "billable_owed (metrics r) + of_nat (cnt sample_billable (session_calls t))
      = sum_list (map (billable_in \<circ> fst) (session_shipped t))
        + (case Option.bind (final_metrics t) sm_lost of None \<Rightarrow> 0 | Some d \<Rightarrow> billable_in d)
        + billable_owed (metrics r')
    \<and> (se_stopping e \<or> final_metrics t = None)"
proof -
  obtain o1 r1 where oc: "open_channel W e r = (o1, r1)" by (cases "open_channel W e r")
  with assms(2) obtain uid where uid: "o1 = Inr uid" by (cases o1) (auto simp: run_session_def)
  have sb: "session_body W e uid r1 = (res, t, r')"
    using assms(2) oc uid by (auto simp: run_session_def split: prod.splits)
  note frame = open_channel_frame[OF oc]
  have r1: "metrics r1 = metrics r" "runner_ok r1"
    using assms(1) by (subst frame, simp add: runner_ok_def)+
  have tm: "tr_metrics t = flush_loop (w_enums W) (se_metrics_ticks e) (se_metrics e) (metrics r)"
    by (rule session_body_cases[OF sb]) (simp add: r1(1))
  have inv: "metrics_inv (metrics r)" using assms(1) by (simp add: runner_ok_def)
  have bal: "balanced (metrics r) (tr_metrics t)" unfolding tm using inv by (rule flush_loop_balanced)
  then have loop: "billable_owed (metrics r) + of_nat (cnt sample_billable (produced (meanwhile (tr_metrics t))))
      = sum_list (map (billable_in \<circ> fst) (shipped (tr_metrics t))) + billable_owed (after (tr_metrics t))"
    unfolding balanced_def all_bool_eq comp_def owed_billable by simp
  have r': "metrics r' = mt_buf (tr_metrics_tail t)" by (rule session_body_cases[OF sb]) simp
  have "billable_owed (after (tr_metrics t))
      = sum_list (map (billable_in \<circ> fst) (case final_metrics t of None \<Rightarrow> [] | Some m \<Rightarrow> sm_shipped m))
        + (case Option.bind (final_metrics t) sm_lost of None \<Rightarrow> 0 | Some d \<Rightarrow> billable_in d)
        + (billable_owed (metrics r') + sum_list (map (billable_in \<circ> fst) (mt_task_shipped (tr_metrics_tail t)))
           - of_nat (cnt sample_billable (produced (mt_calls (tr_metrics_tail t)))))"
    using session_metrics_tail[OF _ sb] inv
    unfolding r1(1) r' all_bool_eq tail_balance_def lost_worth_def comp_def owed_billable by simp
  note total = ledger_settled[OF loop this]
  have "se_stopping e \<or> final_metrics t = None" by (simp add: session_final(1)[OF sb])
  with total show ?thesis by (simp add: session_calls_def session_shipped_def add.assoc)
qed

definition demo_headers :: delivery_headers where
  "demo_headers = \<lparr>delivery_nonce_header = ''n'', agent_version_header = ''v'', agent_process_header = ''p'',
                    agent_heartbeat_header = ''h'', channel_retry_after_header = ''r''\<rparr>"

definition demo_world :: "bytes world" where
  "demo_world =
     \<lparr>w_lkg = demo_packages, w_creds = demo_creds_packages, w_license_text = demo_license_text, w_jwt = demo_jwt,
      w_rules = \<lparr>md_try_from = (\<lambda>_. True), md_to_str = (\<lambda>_. True)\<rparr>, w_headers = demo_headers,
      w_enums = demo_enums\<rparr>"

definition demo_cfg :: agent_runner_config where
  "demo_cfg = (agent_runner_config_default ''u'' ''1.0'')\<lparr>state_dir := [''s''], enrollment_url := ''x#token=T''\<rparr>"

definition demo_runner :: "bytes runner" where
  "demo_runner = (runner_new ''proc'' bare_fs demo_cfg)\<lparr>client := demo_client, metrics := demo_buffer\<rparr>"

definition demo_session :: "bytes inbound list \<Rightarrow> bytes session_env" where
  "demo_session items =
     \<lparr>se_nonce = ''nonce'', se_net = demo_transport, se_open = (\<lambda>_ _. Inr ()), se_inbound = items,
      se_heartbeats = [], se_metrics_ticks = 0,
      se_metrics = (\<lambda>_. \<lparr>sends = demo_env, idle = [], woken_early = False\<rparr>), se_log_ticks = 0,
      se_logs = demo_log_env LogSent, se_status = [], se_stopping = True,
      se_final_metrics = demo_final [TaskDrains (DateTime 8 0), Producing (RecordCall (demo_sample ''z'' Ok)), AbortLands] True,
      se_final_logs = demo_final_logs, se_metrics_rest = [], se_logs_rest = []\<rparr>"

lemma demo_runner_ok: "runner_ok demo_runner"
  using demo_buffer_inv by (simp add: runner_ok_def demo_runner_def runner_new_def log_inv_new)

lemma demo_open:
  "client r = demo_client \<Longrightarrow> \<exists>uid r1. open_channel demo_world (demo_session items) r = (Inr uid, r1)"
  by (simp add: open_channel_def Let_def authed_client_def connect_def demo_client_def
      interceptor_call_def demo_world_def demo_session_def try_bind_def)

lemma demo_run_session:
  "client r = demo_client \<Longrightarrow> \<exists>res t r'. run_session demo_world (demo_session items) r = (res, Some t, r')"
  using demo_open[of r items] by (auto simp: run_session_def split: prod.splits)

lemma demo_runner_client [simp]: "client demo_runner = demo_client"
  by (simp add: demo_runner_def)

theorem session_billing_ledger_witness:
  "\<exists>res t r'. run_session demo_world (demo_session []) demo_runner = (res, Some t, r')
     \<and> billable_owed (metrics demo_runner) + of_nat (cnt sample_billable (session_calls t))
      = sum_list (map (billable_in \<circ> fst) (session_shipped t))
        + (case Option.bind (final_metrics t) sm_lost of None \<Rightarrow> 0 | Some d \<Rightarrow> billable_in d)
        + billable_owed (metrics r')"
proof -
  obtain res t r' where run: "run_session demo_world (demo_session []) demo_runner = (res, Some t, r')"
    using demo_run_session[of demo_runner "[]"] by auto
  from session_billing_ledger[OF demo_runner_ok run] run show ?thesis by blast
qed

definition demo_fresh :: "bytes runner" where
  "demo_fresh = runner_new ''p'' bare_fs demo_cfg"

section \<open>Configuration updates\<close>

lemma save_lkg_frame:
  "save_lkg W e u r = (res, r') \<Longrightarrow> \<exists>s. r' = r\<lparr>disk := s\<rparr> \<and> (cu_bundle u = None \<longrightarrow> s = disk r)"
  by (auto simp: save_lkg_def split: option.splits prod.splits)

text \<open>
  The acknowledgement of a configuration update is truthful. It names the pushed hash; it says
  \<open>error\<close>, with the host's reason, exactly when the host was asked and refused; it says
  \<open>active\<close> otherwise. The hash the runner reports as running moves to the pushed one on an
  \<open>active\<close> answer (a blank hash apart) and stays where it was on an \<open>error\<close>, and the host is
  asked exactly once when there is a bundle and a hook.
\<close>

theorem config_ack_is_truthful:
  assumes "handle_config_update W e u r = (Continue, [ConfigAck a], r')"
  shows "ca_config_hash a = cu_config_hash u
    \<and> (ca_applied_state a, ca_error a)
        = (case me_apply e of
             ApplyFailed why \<Rightarrow> if cu_bundle u \<noteq> None \<and> has_config_applier (hook r) then (''error'', why) else (''active'', [])
           | _ \<Rightarrow> (''active'', []))
    \<and> applied_config_hash r'
        = (if ca_applied_state a = ''active'' \<and> cu_config_hash u \<noteq> [] then Some (cu_config_hash u) else applied_config_hash r)
    \<and> applied_bundles (hook r')
        = applied_bundles (hook r)
          @ (case cu_bundle u of Some b \<Rightarrow> if has_config_applier (hook r) then [b] else [] | None \<Rightarrow> [])
    \<and> sent_events r' = sent_events r @ [ConfigReceived (cu_config_hash u)]"
proof -
  obtain res r1 where sv: "save_lkg W e u r = (res, r1)" by (cases "save_lkg W e u r")
  obtain s where r1: "r1 = r\<lparr>disk := s\<rparr>" using save_lkg_frame[OF sv] by blast
  show ?thesis
    using assms
    by (auto simp: handle_config_update_def sv r1 Let_def finish_config_update_def config_ack_message_def emit_def
        split: option.splits if_splits apply_outcome.splits ack_outcome.splits)
qed

definition demo_message_env :: "apply_outcome \<Rightarrow> message_env" where
  "demo_message_env ap =
     \<lparr>me_io = all_works, me_io_again = all_works, me_rng = demo_rng, me_now = demo_instant, me_apply = ap,
      me_ack = AckSent, me_license_dropped = False\<rparr>"

definition demo_update :: "bytes config_update" where
  "demo_update = \<lparr>cu_config_hash = ''h2'', cu_bundle = Some [2, 3]\<rparr>"

definition demo_gateway :: "bytes runner" where
  "demo_gateway = with_config_applier (demo_fresh\<lparr>applied_config_hash := Some ''h1''\<rparr>)"

lemma demo_gateway_sel [simp]:
  "state_dir (cfg demo_gateway) = [''s'']" "disk demo_gateway = bare_fs" "has_config_applier (hook demo_gateway)"
  "applied_config_hash demo_gateway = Some ''h1''"
  by (simp_all add: demo_gateway_def with_config_applier_def demo_fresh_def runner_new_def demo_cfg_def)

lemma handle_rejected_update:
  assumes "cu_bundle u = Some b" and "has_config_applier (hook r)" and "me_apply e = ApplyFailed why" and "me_ack e = AckSent"
    and "lkg_save (w_lkg W) (me_io e) (me_rng e) (me_now e) (in_state_dir (state_dir (cfg r))) (cu_config_hash u) b (disk r)
           = (Inr (), s)"
  shows "\<exists>r'. handle_config_update W e u r
      = (Continue, [config_ack_message (me_now e) (cu_config_hash u) ''error'' why], r')
    \<and> disk r' = s \<and> applied_config_hash r' = applied_config_hash r \<and> cfg r' = cfg r"
  using assms by (simp add: handle_config_update_def save_lkg_def Let_def finish_config_update_def)

text \<open>
  A refused configuration comes back as the running one after a restart. The update is cached
  before the host is asked, so when the host refuses it the acknowledgement says \<open>error\<close> and
  the running hash stays the old one, but the next start preloads the refused bundle from the cache
  and reports its hash as the configuration in effect.
\<close>

theorem refused_config_reported_after_restart:
  assumes "gcm_roundtrip (lk_crypto (w_lkg W))" and "b64_roundtrip (lk_b64 (w_lkg W))"
    and "hkdf_accepts (lk_crypto (w_lkg W))" and "gcm_accepts (lk_crypto (w_lkg W))" and "rng_works (me_rng e)"
    and "bundle_survives (w_lkg W) (me_now e) (cu_config_hash u) b"
    and "length (json_print (lk_text (w_lkg W)) (lkg_to_json (w_lkg W)
           \<lparr>lkg_config_hash = cu_config_hash u, bundle_proto = pb_encode (w_lkg W) b, written_at = me_now e\<rparr>)) < 2 ^ 36"
    and "paths_free (state_dir (cfg r)) (disk r)" and "me_io e = all_works"
    and "cu_bundle u = Some b" and "has_config_applier (hook r)" and "me_apply e = ApplyFailed why" and "me_ack e = AckSent"
  shows "\<exists>r'. handle_config_update W e u r
        = (Continue, [config_ack_message (me_now e) (cu_config_hash u) ''error'' why], r')
      \<and> applied_config_hash r' = applied_config_hash r
      \<and> (let restarted = snd (preload_lkg W all_works rng' (runner_new process (disk r') (cfg r)))
         in applied_config_hash restarted = Some (cu_config_hash u))"
proof -
  let ?dir = "state_dir (cfg r)" and ?P = "w_lkg W"
  obtain k sealed s where save: "lkg_save ?P all_works (me_rng e) (me_now e) (in_state_dir ?dir) (cu_config_hash u) b (disk r) = (Inr (), s)"
    and inv: "lkg_inv ?dir k s" and img: "lkg_image ?P k (me_rng e) (me_now e) (cu_config_hash u) b = Some sealed"
    and content: "file_content (join ?dir ''lkg-config.bin'') s = Some sealed"
    by (rule lkg_save_works[OF assms(3,4,5,7,8)])
  have "load_bundle ?P all_works rng' (in_state_dir ?dir) s = (Inr (Some (cu_config_hash u, b)), s)"
    using load_bundle_settled[OF inv, of ?P all_works rng'] content lkg_open_image[OF assms(1,2,5,6) img] by auto
  then have pre: "applied_config_hash (snd (preload_lkg W all_works rng' (runner_new process s (cfg r)))) = Some (cu_config_hash u)"
    by (simp add: preload_lkg_def runner_new_def)
  obtain r' where "handle_config_update W e u r
      = (Continue, [config_ack_message (me_now e) (cu_config_hash u) ''error'' why], r')"
    "disk r' = s" "applied_config_hash r' = applied_config_hash r"
    using handle_rejected_update[OF assms(10-13), of W s] save assms(9) by auto
  with pre show ?thesis by (simp add: Let_def)
qed

lemma demo_world_sel [simp]: "w_lkg demo_world = demo_packages"
  by (simp add: demo_world_def)

lemma demo_message_env_sel [simp]:
  "me_io (demo_message_env ap) = all_works" "me_rng (demo_message_env ap) = demo_rng"
  "me_now (demo_message_env ap) = demo_instant" "me_apply (demo_message_env ap) = ap"
  "me_ack (demo_message_env ap) = AckSent"
  by (simp_all add: demo_message_env_def)

theorem refused_config_reported_after_restart_witness:
  "\<exists>r'. handle_config_update demo_world (demo_message_env (ApplyFailed ''bad'')) demo_update demo_gateway
        = (Continue, [config_ack_message demo_instant ''h2'' ''error'' ''bad''], r')
      \<and> applied_config_hash r' = Some ''h1''
      \<and> applied_config_hash (snd (preload_lkg demo_world all_works demo_rng (runner_new ''q'' (disk r') (cfg demo_gateway)))) = Some ''h2''"
proof -
  let ?e = "demo_message_env (ApplyFailed ''bad'')"
  have "bundle_survives (w_lkg demo_world) (me_now ?e) (cu_config_hash demo_update) [2, 3]"
    by (simp add: demo_update_def demo_survives)
  moreover have "paths_free (state_dir (cfg demo_gateway)) (disk demo_gateway)" by (simp add: settled_fs_free)
  ultimately show ?thesis
    using refused_config_reported_after_restart[of demo_world ?e demo_update "[2, 3]" demo_gateway "''bad''" demo_rng "''q''"]
      demo_packages_ok demo_parameters_ok(6) demo_print_short
    by (simp add: demo_update_def Let_def)
qed

theorem config_ack_is_truthful_witness:
  "\<exists>a r'. handle_config_update demo_world (demo_message_env Applied) \<lparr>cu_config_hash = ''h9'', cu_bundle = None\<rparr> demo_gateway
       = (Continue, [ConfigAck a], r')
     \<and> ca_applied_state a = ''active'' \<and> applied_config_hash r' = Some ''h9''"
proof -
  obtain a r' where run: "handle_config_update demo_world (demo_message_env Applied) \<lparr>cu_config_hash = ''h9'', cu_bundle = None\<rparr>
      demo_gateway = (Continue, [ConfigAck a], r')"
    by (simp add: handle_config_update_def save_lkg_def finish_config_update_def config_ack_message_def Let_def)
  from config_ack_is_truthful[OF run] run show ?thesis by simp
qed

section \<open>Licence deliveries\<close>

lemma handle_message_licences:
  assumes "handle_message W e nonce uid kind r = (h, acks, r')"
  shows "\<exists>new. applied_licences (hook r') = applied_licences (hook r) @ new
           \<and> (\<forall>d \<in> set new. channel_nonce d = nonce \<and> ld_instance_uid d = uid)"
proof (cases kind)
  case (Some k)
  then show ?thesis
    using assms
    by (cases k) (auto simp: handle_message_def handle_rotation_frame handle_license_update_def Let_def
        dest!: handle_config_update_frame split: if_splits)
qed (use assms in \<open>simp add: handle_message_def\<close>)

lemma read_inbound_licences:
  assumes "read_inbound W nonce uid items r = (h, acks, r')"
  shows "\<exists>new. applied_licences (hook r') = applied_licences (hook r) @ new
           \<and> (\<forall>d \<in> set new. channel_nonce d = nonce \<and> ld_instance_uid d = uid)"
proof (rule read_inbound_invariant[where I = "\<lambda>r'. \<exists>new. applied_licences (hook r') = applied_licences (hook r) @ new
           \<and> (\<forall>d \<in> set new. channel_nonce d = nonce \<and> ld_instance_uid d = uid)", OF _ _ assms])
  fix e kind h acks and r1 r2 :: "'a runner"
  assume "\<exists>new. applied_licences (hook r1) = applied_licences (hook r) @ new
           \<and> (\<forall>d \<in> set new. channel_nonce d = nonce \<and> ld_instance_uid d = uid)"
  then obtain new1 where n1: "applied_licences (hook r1) = applied_licences (hook r) @ new1"
    "\<forall>d \<in> set new1. channel_nonce d = nonce \<and> ld_instance_uid d = uid" by blast
  assume "handle_message W e nonce uid kind r1 = (h, acks, r2)"
  from handle_message_licences[OF this] obtain new2 where "applied_licences (hook r2) = applied_licences (hook r1) @ new2"
    "\<forall>d \<in> set new2. channel_nonce d = nonce \<and> ld_instance_uid d = uid" by blast
  with n1 show "\<exists>new. applied_licences (hook r2) = applied_licences (hook r) @ new
           \<and> (\<forall>d \<in> set new. channel_nonce d = nonce \<and> ld_instance_uid d = uid)"
    by (intro exI[of _ "new1 @ new2"]) auto
qed simp

lemma open_channel_uid:
  assumes "open_channel W e r = (Inr uid, r1)"
  shows "uid = channel_instance_uid W r"
proof -
  obtain a c where a: "authed_client (se_net e) (client r) = (Inr a, c)"
    using assms by (cases "authed_client (se_net e) (client r)"; cases "fst (authed_client (se_net e) (client r))")
      (auto simp: open_channel_def Let_def)
  have "jwt c = jwt (client r)"
    using a by (auto simp: authed_client_def try_bind_Inr_iff split: option.splits dest: connect_frame_Inr)
  with assms a show ?thesis
    by (auto simp: open_channel_def Let_def channel_instance_uid_def current_jwt_def split: sum.splits)
qed

text \<open>
  C12. Every licence handed to the host names the Channel it came down: in a whole session, each
  delivery carries the nonce drawn for that session, the one sent in the Channel's metadata, and the
  instance uid claimed by the token the Channel was opened with. Deliveries handed over earlier stay
  as they were.
\<close>

theorem deliveries_name_their_channel:
  assumes "run_session W e r = (res, Some t, r')"
  shows "\<exists>new. applied_licences (hook r') = applied_licences (hook r) @ new
    \<and> (\<forall>d \<in> set new. channel_nonce d = se_nonce e
          \<and> ld_instance_uid d = unwrap_or_default (Option.bind (jwt (client r)) (jwt_instance_uid (w_jwt W))))"
proof -
  obtain o1 r1 where oc: "open_channel W e r = (o1, r1)" by (cases "open_channel W e r")
  with assms obtain uid where uid: "o1 = Inr uid" by (cases o1) (auto simp: run_session_def)
  have sb: "session_body W e uid r1 = (res, t, r')"
    using assms oc uid by (auto simp: run_session_def split: prod.splits)
  have hk: "hook r1 = hook r" by (subst open_channel_frame[OF oc]) simp
  obtain h acks r2 hb where ri: "read_inbound W (se_nonce e) uid (se_inbound e) r1 = (h, acks, r2)"
    and "hook r' = hook r2"
    by (rule session_body_cases[OF sb]) (auto simp: flush_remaining_def Let_def)
  with read_inbound_licences[OF ri] hk open_channel_uid[OF oc[unfolded uid]] show ?thesis
    by (simp add: channel_instance_uid_def current_jwt_def)
qed

definition demo_license_message :: "bytes inbound" where
  "demo_license_message = Message (demo_message_env Applied)
     (Some (LicenseUpdate \<lparr>lu_license_jwt = ''L'', lu_org_slug = ''acme'', lu_refresh_failing = False, lu_delivery_proof = ''P''\<rparr>))"

theorem deliveries_name_their_channel_witness:
  "\<exists>res t r' new. run_session demo_world (demo_session [demo_license_message]) (with_license_applier demo_runner) = (res, Some t, r')
     \<and> applied_licences (hook r') = applied_licences (hook (with_license_applier demo_runner)) @ new
     \<and> (\<forall>d \<in> set new. channel_nonce d = ''nonce'')"
proof -
  have "client (with_license_applier demo_runner) = demo_client" by (simp add: with_license_applier_def)
  then obtain res t r' where run: "run_session demo_world (demo_session [demo_license_message]) (with_license_applier demo_runner) = (res, Some t, r')"
    using demo_run_session by blast
  have "se_nonce (demo_session [demo_license_message]) = ''nonce''" by (simp add: demo_session_def)
  with deliveries_name_their_channel[OF run] run show ?thesis by auto
qed

section \<open>Tokens and credentials over the loop\<close>

lemma retry_succeeded:
  "retry_with_backoff attempts bo s = (Succeeded v, ds, s') \<Longrightarrow> \<exists>a f s0. (a, f) \<in> set attempts \<and> a s0 = (Inr v, s')"
proof (induction attempts arbitrary: bo s ds)
  case (Cons x attempts)
  obtain a f where x: "x = (a, f)" by (cases x)
  obtain res s1 where a: "a s = (res, s1)" by (cases "a s")
  show ?case
  proof (cases res)
    case (Inr w)
    then have "a s = (Inr v, s')" using Cons.prems x a by simp
    then show ?thesis using x by (intro exI[of _ a] exI[of _ f] exI[of _ s]) simp
  next
    case (Inl err)
    then show ?thesis using Cons.prems x a Cons.IH[of _ s1] by (auto split: prod.splits option.splits) blast
  qed
qed simp

text \<open>A response of the control plane to one of the attempts of a registration.\<close>

definition answered :: "register_env \<Rightarrow> agent_runner_config \<Rightarrow> register_response \<Rightarrow> bool" where
  "answered e c resp \<longleftrightarrow>
     (\<exists>enrollment net answer f ch. extract_token (enrollment_url c) = Inr enrollment
        \<and> (net, answer, f) \<in> set (re_attempts e) \<and> answer ch (register_request_of e enrollment c) = Inr resp)"

lemma client_register_answer:
  "client_register net answer req c = (Inr resp, c') \<Longrightarrow> \<exists>ch. answer ch req = Inr resp"
  by (auto simp: client_register_def try_bind_def split: prod.splits sum.splits)

lemma register_fresh_answered:
  assumes "register_fresh W e r = (RegisterOk creds, ds, r')"
  shows "\<exists>resp c. answered e (cfg r) resp \<and> creds = creds_of_response (w_creds W) (re_now e) resp
    \<and> r' = install_on (w_creds W) creds (emit (Registered (rr_instance_id resp)) (r\<lparr>client := c\<rparr>)
        \<lparr>disk := write_creds (w_creds W) (re_io e) (state_dir (cfg r)) creds (disk r)\<rparr>)"
proof -
  obtain enrollment where t: "extract_token (enrollment_url (cfg r)) = Inr enrollment"
    using assms by (auto simp: register_fresh_def split: sum.splits)
  let ?req = "register_request_of e enrollment (cfg r)"
  let ?attempts = "map (\<lambda>(net, answer, factor). (client_register net answer ?req, factor)) (re_attempts e)"
  obtain resp c where rt: "retry_with_backoff ?attempts
      (backoff_new (backoff_initial (cfg r)) (backoff_max (cfg r)) True) (client r) = (Succeeded resp, ds, c)"
    and creds: "creds = creds_of_response (w_creds W) (re_now e) resp"
    and r': "r' = install_on (w_creds W) creds (emit (Registered (rr_instance_id resp)) (r\<lparr>client := c\<rparr>)
        \<lparr>disk := write_creds (w_creds W) (re_io e) (state_dir (cfg r)) creds (disk r)\<rparr>)"
    using assms by (auto simp: register_fresh_def t Let_def split: prod.splits retried.splits)
  obtain net answer f s0 where "(net, answer, f) \<in> set (re_attempts e)" "client_register net answer ?req s0 = (Inr resp, c)"
    using retry_succeeded[OF rt] by auto
  moreover from client_register_answer[OF this(2)] obtain ch where "answer ch ?req = Inr resp" by (rule exE)
  ultimately have "answered e (cfg r) resp" unfolding answered_def using t by (intro exI conjI)
  with creds r' show ?thesis by blast
qed

text \<open>
  C15. Rejected credentials are given up only when something can replace them. After a credential
  rejection the channel is dropped and the rejection reported. Without an enrollment token the
  credentials file is left as it is and the loop goes on after the backoff delay; with one the file
  is discarded and the runner registers, and the loop goes on only if that succeeds.
\<close>

theorem rejected_credentials_are_replaced_or_kept:
  assumes "is_credential_rejection err" and "next_delay (le_factor e) bo = (Some delay, bo')"
  shows "let (res, bo2, r') = after_session W e (SessionErr err) (bo, r) in
    case extract_token (enrollment_url (cfg r)) of
      Inl _ \<Rightarrow> res = LoopNext delay \<and> bo2 = bo' \<and> disk r' = disk r \<and> channel (client r') = None
              \<and> sent_events r' = sent_events r @ [ChannelDisconnected (describe_session_error err)]
              \<and> jwt (client r') = jwt (client r)
    | Inr _ \<Rightarrow>
        (\<exists>r1 rg ds. channel (client r1) = None
           \<and> disk r1 = discard_stored_creds (le_discard_io e) (state_dir (cfg r)) (disk r)
           \<and> sent_events r1 = sent_events r @ [ChannelDisconnected (describe_session_error err)]
           \<and> register_fresh W (le_register_after e) r1 = (rg, ds, r')
           \<and> (res = LoopNext delay \<longleftrightarrow> (\<exists>creds. rg = RegisterOk creds)))"
proof -
  let ?r1 = "(reset_client (disconnected err r))\<lparr>disk := discard_stored_creds (le_discard_io e) (state_dir (cfg r)) (disk r)\<rparr>"
  obtain rg ds r2 where rg: "register_fresh W (le_register_after e) ?r1 = (rg, ds, r2)"
    by (cases "register_fresh W (le_register_after e) ?r1")
  have r1: "channel (client ?r1) = None" "sent_events ?r1 = sent_events r @ [ChannelDisconnected (describe_session_error err)]"
    "disk ?r1 = discard_stored_creds (le_discard_io e) (state_dir (cfg r)) (disk r)"
    by (simp_all add: reset_client_def disconnected_def emit_def)
  have sel: "cfg (reset_client (disconnected err r)) = cfg r" "disk (reset_client (disconnected err r)) = disk r"
    "channel (client (reset_client (disconnected err r))) = None"
    "jwt (client (reset_client (disconnected err r))) = jwt (client r)"
    "sent_events (reset_client (disconnected err r)) = sent_events r @ [ChannelDisconnected (describe_session_error err)]"
    by (simp_all add: reset_client_def disconnected_def emit_def)
  show ?thesis
  proof (cases "extract_token (enrollment_url (cfg r))")
    case (Inl x)
    with assms sel show ?thesis by (simp add: after_session_def Let_def)
  next
    case (Inr token)
    have "after_session W e (SessionErr err) (bo, r)
        = after_register (\<lambda>(bo, r). (LoopNext delay, bo, r)) bo' (rg, ds, r2)"
      using assms Inr rg by (simp add: after_session_def Let_def sel)
    then show ?thesis
      using Inr rg r1 by (cases rg) (auto simp: after_register_def Let_def intro!: exI[of _ ?r1])
  qed
qed

definition demo_register_env :: register_env where
  "demo_register_env =
     \<lparr>re_os = ''linux'', re_arch = ''x86_64'', re_env_var = (\<lambda>_. None), re_attempts = [], re_now = DateTime 0 0,
      re_io = all_works\<rparr>"

definition demo_loop_env :: "bytes loop_env" where
  "demo_loop_env =
     \<lparr>le_stopping = False, le_now = 0, le_register_before = demo_register_env, le_session = demo_session [],
      le_factor = 1, le_discard_io = all_works, le_register_after = demo_register_env\<rparr>"

definition demo_rejection :: anyhow where
  "demo_rejection = [StatusCause \<lparr>st_code = CodeUnauthenticated, st_message = ''expired'', st_metadata = (\<lambda>_. None)\<rparr> ''x'']"

theorem rejected_credentials_are_replaced_or_kept_witness:
  "let (res, bo2, r') = after_session demo_world demo_loop_env (SessionErr demo_rejection)
         (backoff_new (from_secs 1) (from_secs 60) False, demo_runner\<lparr>cfg := demo_cfg\<lparr>enrollment_url := []\<rparr>\<rparr>)
   in res = LoopNext (from_secs 1) \<and> disk r' = bare_fs \<and> channel (client r') = None"
proof -
  let ?bo = "backoff_new (from_secs 1) (from_secs 60) False"
  let ?r = "demo_runner\<lparr>cfg := demo_cfg\<lparr>enrollment_url := []\<rparr>\<rparr>"
  have rej: "is_credential_rejection demo_rejection"
    by (simp add: is_credential_rejection_def demo_rejection_def status_in_def)
  have delay: "next_delay (le_factor demo_loop_env) ?bo = (Some (from_secs 1), ?bo\<lparr>attempt := sat_add (attempt ?bo) 1\<rparr>)"
    by (subst next_delay_plain) (simp_all add: backoff_new_def bounded_delay_def saturating_mul_def from_secs_def duration_max_def)
  have "extract_token (enrollment_url (cfg ?r)) = Inl (anyhow_msg ''enrollment URL missing fragment'')"
    by (simp add: extract_token_def)
  moreover have "disk ?r = bare_fs" by (simp add: demo_runner_def runner_new_def)
  ultimately show ?thesis
    using rejected_credentials_are_replaced_or_kept[OF rej delay, of demo_world ?r] by (simp add: Let_def split_def)
qed

section \<open>Registering\<close>

lemma write_creds_works:
  assumes "\<not> is_dir (creds_path dir) s" and "is_dir dir s"
  shows "file_content (creds_path dir) (write_creds P all_works dir c s) = Some (json_print (cr_text P) (creds_to_json P c))"
    and "map_option perm (files (write_creds P all_works dir c s) (creds_path dir)) = Some mode_600"
  using assms by (simp_all add: write_creds_def fs_write_def fs_chmod_def is_dir_def creds_path_def join_def)

lemma issued_dek_installs:
  assumes "b64_roundtrip (cr_b64 P)" and "b64_encode (cr_b64 P) [] = []"
    and "from_proto (rr_payload_dek resp) (rr_payload_dek_version resp) = Inr (Some h)"
  shows "install_payload_dek_from_creds P (creds_of_response P now resp) slot = Some h"
proof -
  have "rr_payload_dek resp \<noteq> []" using assms(3) by (auto simp: from_proto_Some_iff)
  moreover from this have "b64_encode (cr_b64 P) (rr_payload_dek resp) \<noteq> []"
    using assms(1,2) by (metis b64_roundtrip_def option.inject)
  ultimately show ?thesis
    using assms(1,3) by (simp add: install_payload_dek_from_creds_def creds_of_response_def b64_roundtrip_def)
qed

text \<open>
  C16. What Register issued is what the runner presents and what a restart presents. After a successful
  registration with a working state directory, the credentials file is readable by its owner only and a
  new process on the same directory finds in it the instance id, endpoint, token, certificate, key and CA
  of a response with which the control plane answered one of the attempts. The running process and the
  new one present the same token, that of the response; when the response names a certificate and a CA,
  the same TLS material, that of the response; and when it carries a usable data key, both have it.
\<close>

theorem registration_survives_restart:
  assumes "register_fresh W e r = (RegisterOk creds, ds, r')" and "re_io e = all_works"
    and "\<not> is_dir (creds_path (state_dir (cfg r))) (disk r)" and "is_dir (state_dir (cfg r)) (disk r)"
    and "creds_survive (w_creds W) creds"
    and "b64_roundtrip (cr_b64 (w_creds W))" and "b64_encode (cr_b64 (w_creds W)) [] = []"
  shows "\<exists>resp stored. let fresh = runner_new process (disk r') (cfg r); restarted = install_on (w_creds W) stored fresh in
      answered e (cfg r) resp \<and> sent_events r' = sent_events r @ [Registered (rr_instance_id resp)]
    \<and> map_option perm (files (disk r') (creds_path (state_dir (cfg r)))) = Some mode_600
    \<and> cached_creds W all_works fresh = Some stored
    \<and> sc_instance_id stored = rr_instance_id resp \<and> sc_cp_endpoint stored = rr_cp_endpoint resp
    \<and> sc_client_cert_pem stored = rr_client_cert_pem resp \<and> sc_client_key_pem stored = rr_client_key_pem resp
    \<and> sc_ca_chain_pem stored = rr_ca_chain_pem resp
    \<and> jwt (client r') = Some (rr_instance_jwt resp) \<and> jwt (client restarted) = Some (rr_instance_jwt resp)
    \<and> (rr_client_cert_pem resp \<noteq> [] \<and> rr_ca_chain_pem resp \<noteq> [] \<longrightarrow>
         tls (client r') = Some \<lparr>ca_pem = rr_ca_chain_pem resp, client_cert_pem = rr_client_cert_pem resp,
                                 client_key_pem = rr_client_key_pem resp, server_name = None\<rparr>
         \<and> channel (client r') = None \<and> tls (client restarted) = tls (client r'))
    \<and> (\<forall>h. from_proto (rr_payload_dek resp) (rr_payload_dek_version resp) = Inr (Some h) \<longrightarrow>
         payload_dek r' = Some h \<and> payload_dek restarted = Some h)"
proof -
  let ?dir = "state_dir (cfg r)"
  obtain resp c where answer: "answered e (cfg r) resp"
    and creds: "creds = creds_of_response (w_creds W) (re_now e) resp"
    and r'0: "r' = install_on (w_creds W) creds (emit (Registered (rr_instance_id resp)) (r\<lparr>client := c\<rparr>)
        \<lparr>disk := write_creds (w_creds W) all_works ?dir creds (disk r)\<rparr>)"
    using register_fresh_answered[OF assms(1)] unfolding assms(2) by blast
  then obtain r0 where r': "r' = install_on (w_creds W) creds r0" by blast
  have disk: "disk r' = write_creds (w_creds W) all_works ?dir creds (disk r)" by (simp add: r'0 install_on_frame)
  note w = write_creds_works[OF assms(3,4), of "w_creds W" creds]
  have "creds_in (w_creds W) (file_content (creds_path ?dir) (disk r')) = Some creds"
    unfolding disk w(1) using creds_in_print[OF assms(5)] .
  then have "read_stored_creds (w_creds W) all_works ?dir (disk r') = (Inr creds, disk r')"
    by (intro read_stored_creds_content) simp_all
  then have "cached_creds W all_works (runner_new process (disk r') (cfg r)) = Some creds"
    by (simp add: cached_creds_def runner_new_def)
  moreover have "install_payload_dek_from_creds (w_creds W) creds slot = Some h"
    if "from_proto (rr_payload_dek resp) (rr_payload_dek_version resp) = Inr (Some h)" for h slot
    using issued_dek_installs[OF assms(6,7) that] by (simp add: creds)
  moreover have "sent_events r' = sent_events r @ [Registered (rr_instance_id resp)]"
    by (simp add: r'0 install_on_frame emit_def)
  moreover have "map_option perm (files (disk r') (creds_path ?dir)) = Some mode_600"
    unfolding disk by (rule w(2))
  moreover have "rr_client_cert_pem resp \<noteq> [] \<and> rr_ca_chain_pem resp \<noteq> [] \<Longrightarrow>
      tls (client (install_on (w_creds W) creds x)) = Some \<lparr>ca_pem = rr_ca_chain_pem resp, client_cert_pem = rr_client_cert_pem resp,
                                 client_key_pem = rr_client_key_pem resp, server_name = None\<rparr>
      \<and> channel (client (install_on (w_creds W) creds x)) = None" for x :: "'b runner"
    by (simp add: install_on_def install_creds_def Let_def creds creds_of_response_def creds_tls_def)
  moreover have "sc_instance_id creds = rr_instance_id resp" "sc_cp_endpoint creds = rr_cp_endpoint resp"
    "sc_client_cert_pem creds = rr_client_cert_pem resp" "sc_client_key_pem creds = rr_client_key_pem resp"
    "sc_ca_chain_pem creds = rr_ca_chain_pem resp" "sc_instance_jwt creds = rr_instance_jwt resp"
    by (simp_all add: creds creds_of_response_def)
  ultimately show ?thesis using answer
    by (intro exI[of _ resp] exI[of _ creds]) (auto simp: Let_def r' install_on_frame)
qed

lemma retry_until_success:
  assumes "\<forall>(a, f) \<in> set failing. (\<forall>s. \<exists>e. fst (a s) = Inl e) \<and> 3 / 4 \<le> f \<and> f \<le> 5 / 4"
    and "\<forall>s. \<exists>s'. good s = (Inr v, s')" and "2 * max_delay bo \<le> duration_max"
  shows "\<exists>ds s'. retry_with_backoff (failing @ (good, g) # rest) bo s = (Succeeded v, ds, s') \<and> length ds = length failing"
  using assms(1,3)
proof (induction failing arbitrary: bo s)
  case Nil
  obtain s' where "good s = (Inr v, s')" using assms(2) by blast
  then show ?case by simp
next
  case (Cons x failing)
  obtain a f where x: "x = (a, f)" by (cases x)
  have "\<exists>err. fst (a s) = Inl err" using Cons.prems(1) x by simp
  then obtain err s1 where a: "a s = (Inl err, s1)" by (cases "a s") auto
  obtain d where d: "next_delay f bo = (Some d, bo\<lparr>attempt := sat_add (attempt bo) 1\<rparr>)"
    using next_delay_Some[of f bo] Cons.prems x by auto
  obtain ds s' where "retry_with_backoff (failing @ (good, g) # rest) (bo\<lparr>attempt := sat_add (attempt bo) 1\<rparr>) s1
      = (Succeeded v, ds, s') \<and> length ds = length failing"
    using Cons.IH[of "bo\<lparr>attempt := sat_add (attempt bo) 1\<rparr>" s1] Cons.prems by auto
  with a d show ?case by (simp add: x)
qed

lemma client_register_fails:
  "(\<And>ch. \<exists>err. answer ch req = Inl err) \<Longrightarrow> \<exists>err. fst (client_register net answer req c) = Inl err"
  by (cases "connect net c"; cases "fst (connect net c)") (auto simp: client_register_def)

lemma client_register_succeeds:
  assumes "uri_error net = (\<lambda>_. None)" "tls_error net = (\<lambda>_. None)" "dial_error net = (\<lambda>_. None)"
    and "\<And>ch. answer ch req = Inr resp"
  shows "\<exists>c'. client_register net answer req c = (Inr resp, c')"
proof -
  have "\<exists>c1. connect net c = (Inr (), c1)"
    using assms(1-3) by (simp add: connect_def Let_def)
  then show ?thesis using assms(4) by (auto simp: client_register_def)
qed

text \<open>
  C13. Registering outlasts an outage of any length. With an enrollment token and a maximum delay of
  at most half of the longest duration, however many attempts fail and however they fail, the runner
  keeps trying, sleeps once per failure, and the first attempt that the control plane answers on a
  working network registers it, with the credentials of that answer.
\<close>

theorem registration_outlasts_an_outage:
  assumes "extract_token (enrollment_url (cfg r)) = Inr token" and "2 * backoff_max (cfg r) \<le> duration_max"
    and "\<forall>(net, answer, f) \<in> set outage. (\<forall>ch req. \<exists>err. answer ch req = Inl err) \<and> 3 / 4 \<le> f \<and> f \<le> 5 / 4"
    and "uri_error net = (\<lambda>_. None)" "tls_error net = (\<lambda>_. None)" "dial_error net = (\<lambda>_. None)"
    and "\<forall>ch req. answer ch req = Inr resp"
    and "re_attempts e = outage @ (net, answer, f) # later"
  shows "\<exists>ds r'. register_fresh W e r = (RegisterOk (creds_of_response (w_creds W) (re_now e) resp), ds, r')
           \<and> length ds = length outage"
proof -
  let ?req = "register_request_of e token (cfg r)"
  let ?op = "\<lambda>(net, answer, factor). (client_register net answer ?req, factor)"
  let ?bo = "backoff_new (backoff_initial (cfg r)) (backoff_max (cfg r)) True"
  have fails: "\<forall>(a, f) \<in> set (map ?op outage). (\<forall>s. \<exists>err. fst (a s) = Inl err) \<and> 3 / 4 \<le> f \<and> f \<le> 5 / 4"
  proof (clarsimp)
    fix net answer f assume "(net, answer, f) \<in> set outage"
    with assms(3) have "(\<forall>ch req. \<exists>err. answer ch req = Inl err) \<and> 3 / 4 \<le> f \<and> f \<le> 5 / 4" by auto
    then show "(\<forall>s. \<exists>err. fst (client_register net answer ?req s) = Inl err) \<and> 3 \<le> f * 4 \<and> f * 4 \<le> 5"
      using client_register_fails[of answer ?req net] by auto
  qed
  have good: "\<forall>s. \<exists>s'. client_register net answer ?req s = (Inr resp, s')"
    using client_register_succeeds[OF assms(4,5,6), of answer ?req resp] assms(7) by simp
  have "2 * max_delay ?bo \<le> duration_max" using assms(2) by (simp add: backoff_new_def)
  from retry_until_success[OF fails good this, of f "map ?op later" "client r"]
  obtain ds c where "retry_with_backoff (map ?op (re_attempts e)) ?bo (client r) = (Succeeded resp, ds, c)"
      "length ds = length outage"
    by (auto simp: assms(8))
  then show ?thesis using assms(1) by (auto simp: register_fresh_def Let_def)
qed

definition demo_response :: register_response where
  "demo_response =
     \<lparr>rr_instance_id = ''i'', rr_instance_jwt = ''j1'', rr_cp_endpoint = ''https://cp'', rr_client_cert_pem = ''C'',
      rr_client_key_pem = ''K'', rr_ca_chain_pem = ''CA'', rr_payload_dek = [], rr_payload_dek_version = 0\<rparr>"

definition demo_outage_env :: register_env where
  "demo_outage_env = demo_register_env\<lparr>re_attempts :=
     [(demo_transport, (\<lambda>_ _. Inl (anyhow_msg ''down'')), 1), (demo_transport, (\<lambda>_ _. Inr demo_response), 1)]\<rparr>"

lemma demo_token: "extract_token (enrollment_url (cfg demo_fresh)) = Inr ''T''"
  by (simp add: demo_fresh_def runner_new_def demo_cfg_def extract_token_def strip_prefix_def)

lemma demo_backoff: "2 * backoff_max (cfg demo_fresh) \<le> duration_max"
  by (simp add: demo_fresh_def runner_new_def demo_cfg_def agent_runner_config_default_def from_secs_def duration_max_def)

lemma demo_creds_issued: "creds_of_response demo_creds_packages (DateTime 0 0) demo_response = demo_creds"
  by (simp add: creds_of_response_def demo_response_def demo_creds_def)

theorem registration_outlasts_an_outage_witness:
  "\<exists>ds r'. register_fresh demo_world demo_outage_env demo_fresh = (RegisterOk demo_creds, ds, r') \<and> length ds = 1"
  using registration_outlasts_an_outage[OF demo_token demo_backoff,
      of "[(demo_transport, (\<lambda>_ _. Inl (anyhow_msg ''down'')), 1)]" demo_transport "\<lambda>_ _. Inr demo_response" demo_response
        demo_outage_env 1 "[]" demo_world] demo_creds_issued
  by (simp add: demo_outage_env_def demo_register_env_def demo_transport_def demo_world_def)

lemma demo_registers:
  "\<exists>ds r'. register_fresh demo_world (demo_register_env\<lparr>re_attempts := [(demo_transport, (\<lambda>_ _. Inr demo_response), 1)]\<rparr>) demo_fresh
     = (RegisterOk demo_creds, ds, r')"
proof -
  have "\<exists>c'. client_register demo_transport (\<lambda>_ _. Inr demo_response)
      (register_request_of (demo_register_env\<lparr>re_attempts := [(demo_transport, (\<lambda>_ _. Inr demo_response), 1)]\<rparr>) ''T'' (cfg demo_fresh))
      (client demo_fresh) = (Inr demo_response, c')"
    by (rule client_register_succeeds) (simp_all add: demo_transport_def)
  then show ?thesis
    using demo_creds_issued
    by (auto simp: register_fresh_def demo_token Let_def demo_register_env_def demo_world_def)
qed

lemma demo_answered: "answered (demo_register_env\<lparr>re_attempts := [(demo_transport, (\<lambda>_ _. Inr demo_response), 1)]\<rparr>) c resp
    \<Longrightarrow> resp = demo_response"
  by (auto simp: answered_def)

theorem registration_survives_restart_witness:
  "\<exists>ds r' stored. register_fresh demo_world (demo_register_env\<lparr>re_attempts := [(demo_transport, (\<lambda>_ _. Inr demo_response), 1)]\<rparr>) demo_fresh
       = (RegisterOk demo_creds, ds, r')
     \<and> cached_creds demo_world all_works (runner_new ''q'' (disk r') (cfg demo_fresh)) = Some stored
     \<and> jwt (client r') = Some ''j1'' \<and> sc_client_cert_pem stored = ''C'' \<and> sc_client_key_pem stored = ''K''
     \<and> tls (client (install_on demo_creds_packages stored (runner_new ''q'' (disk r') (cfg demo_fresh) :: bytes runner))) = tls (client r')"
proof -
  let ?e = "demo_register_env\<lparr>re_attempts := [(demo_transport, (\<lambda>_ _. Inr demo_response), 1)]\<rparr>"
  obtain ds r' where reg: "register_fresh demo_world ?e demo_fresh = (RegisterOk demo_creds, ds, r')"
    using demo_registers by blast
  have w: "w_creds demo_world = demo_creds_packages" by (simp add: demo_world_def)
  have ok: "re_io ?e = all_works"
    "\<not> is_dir (creds_path (state_dir (cfg demo_fresh))) (disk demo_fresh)" "is_dir (state_dir (cfg demo_fresh)) (disk demo_fresh)"
    "creds_survive (w_creds demo_world) demo_creds"
    "b64_roundtrip (cr_b64 (w_creds demo_world))" "b64_encode (cr_b64 (w_creds demo_world)) [] = []"
    using demo_creds_survive(1)
    by (simp_all add: demo_register_env_def demo_fresh_def runner_new_def demo_cfg_def bare_fs_def is_dir_def creds_path_def
        join_def w)
      (simp_all add: demo_creds_packages_def demo_codec_def demo_parameters_ok demo_base64_def[THEN arg_cong, of b64_encode])
  from registration_survives_restart[OF reg ok, of "''q''"] show ?thesis unfolding Let_def
  proof (elim exE conjE)
    fix resp stored
    assume ans: "answered ?e (cfg demo_fresh) resp" and jwt: "jwt (client r') = Some (rr_instance_jwt resp)"
      and cached: "cached_creds demo_world all_works (runner_new ''q'' (disk r') (cfg demo_fresh)) = Some stored"
      and pair: "sc_client_cert_pem stored = rr_client_cert_pem resp" "sc_client_key_pem stored = rr_client_key_pem resp"
      and tls: "rr_client_cert_pem resp \<noteq> [] \<and> rr_ca_chain_pem resp \<noteq> [] \<longrightarrow>
        tls (client r') = Some \<lparr>ca_pem = rr_ca_chain_pem resp, client_cert_pem = rr_client_cert_pem resp,
                                client_key_pem = rr_client_key_pem resp, server_name = None\<rparr>
        \<and> channel (client r') = None
        \<and> tls (client (install_on (w_creds demo_world) stored (runner_new ''q'' (disk r') (cfg demo_fresh) :: bytes runner))) = tls (client r')"
    have "rr_instance_jwt resp = ''j1''" "rr_client_cert_pem resp = ''C''" "rr_client_key_pem resp = ''K''" "rr_ca_chain_pem resp = ''CA''"
      by (simp_all add: demo_answered[OF ans] demo_response_def)
    with jwt cached pair tls reg show ?thesis unfolding w by (intro exI[of _ ds] exI[of _ r'] exI[of _ stored]) auto
  qed
qed

section \<open>Rotation and the live channel\<close>

text \<open>
  Rotated TLS material waits for a failure: a rotation leaves the live channel alone, and a
  session that then ends cleanly does not reset it, so the next Channel is opened on the connection
  dialled with the old certificate although the client holds the new one.
\<close>

theorem rotated_tls_unused_after_clean_end:
  assumes "channel (client r) = Some ch" and "rot_instance_jwt cr \<noteq> []"
  shows "let r1 = handle_rotation W e cr r; (res, bo', r2) = after_session W le SessionOk (bo, r1)
         in res = LoopNext 0 \<and> attempt bo' = 0 \<and> r2 = r1
            \<and> fst (authed_client net (client r2))
                = Inr \<lparr>au_channel = ch, au_interceptor = \<lparr>ji_jwt = rot_instance_jwt cr\<rparr>\<rparr>"
proof -
  let ?r1 = "handle_rotation W e cr r"
  have "jwt (client ?r1) = Some (rot_instance_jwt cr)"
    using assms(2) by (simp add: handle_rotation_def Let_def split: sum.splits)
  moreover have "channel (client ?r1) = Some ch" using assms(1) by (simp add: handle_rotation_frame)
  ultimately show ?thesis
    by (simp add: after_session_def backoff_reset_def authed_client_def connect_def try_bind_def Let_def)
qed

theorem rotated_tls_unused_after_clean_end_witness:
  "let r1 = handle_rotation demo_world (demo_message_env Applied) (demo_rotation\<lparr>rot_client_cert_pem := ''C2''\<rparr>) demo_runner
   in fst (authed_client demo_transport (client r1))
        = Inr \<lparr>au_channel = base_endpoint ''https://cp'', au_interceptor = \<lparr>ji_jwt = ''j2''\<rparr>\<rparr>"
  using rotated_tls_unused_after_clean_end[of demo_runner "base_endpoint ''https://cp''" "demo_rotation\<lparr>rot_client_cert_pem := ''C2''\<rparr>"
      demo_world "demo_message_env Applied" demo_loop_env "backoff_new 0 0 False" demo_transport]
  by (simp add: demo_client_def demo_rotation_def after_session_def)

end
