(* ===== verification/RunLedger.thy ===== *)
theory RunLedger
  imports AgentCorrect
begin

text \<open>
  Both telemetry lanes over the whole run loop: the sessions an agent lives through are put end to
  end. The traffic of the loop is read off the same iterations that \<open>loop_from\<close> performs; between two
  sessions the loop sleeps or registers and leaves the buffers alone, so what one session owes at its
  end is what the next one opens with. The locale \<open>loop_relation\<close> puts sessions together; its instance
  \<open>lane_ledger\<close> for a lane whose sessions balance is interpreted for the billable calls of the metrics
  lane and for the lines of the log lane. Calls and lines recorded between two sessions are among those recorded before the next
  session's first drain.
\<close>

section \<open>The sessions of a run\<close>

text \<open>The state in which an iteration connects, when it gets that far.\<close>

definition connect_state :: "'b world \<Rightarrow> 'b loop_env \<Rightarrow> backoff \<Rightarrow> 'b runner \<Rightarrow> (backoff \<times> 'b runner) option" where
  "connect_state W e bo r =
     (case refresh_token W e (\<lambda>(bo, r). (LoopNext 0, bo, r)) bo r of
        (LoopNext _, bo1, r1) \<Rightarrow> Some (bo1, r1)
      | _ \<Rightarrow> None)"

definition iteration_traffic :: "'b world \<Rightarrow> 'b loop_env \<Rightarrow> backoff \<Rightarrow> 'b runner \<Rightarrow> session_traffic list" where
  "iteration_traffic W e bo r =
     (if le_stopping e then []
      else case connect_state W e bo r of
             None \<Rightarrow> []
           | Some (bo1, r1) \<Rightarrow>
               (case run_session W (le_session e) r1 of (_, None, _) \<Rightarrow> [] | (_, Some t, _) \<Rightarrow> [t]))"

fun loop_traffic :: "'b world \<Rightarrow> 'b loop_env list \<Rightarrow> backoff \<Rightarrow> 'b runner \<Rightarrow> session_traffic list" where
  "loop_traffic W [] bo r = []"
| "loop_traffic W (e # es) bo r =
     iteration_traffic W e bo r @
     (case loop_iteration W e bo r of
        (LoopNext d, bo', r') \<Rightarrow> loop_traffic W es bo' r'
      | _ \<Rightarrow> [])"

section \<open>What happens between sessions leaves the buffers alone\<close>

abbreviation same_lanes :: "'b runner \<Rightarrow> 'b runner \<Rightarrow> bool" where
  "same_lanes r r' \<equiv> metrics r' = metrics r \<and> logs r' = logs r"

lemma register_fresh_lanes: "same_lanes r (snd (snd (register_fresh W e r)))"
  by (auto simp: register_fresh_def Let_def install_on_frame split: sum.splits prod.splits retried.splits)

lemma after_register_lanes:
  "same_lanes (snd (snd res)) (snd (snd (after_register (\<lambda>(bo, r). (LoopNext d, bo, r)) bo res)))"
  "same_lanes (snd (snd res)) (snd (snd (after_register (Pair (LoopNext d)) bo res)))"
  by (cases res; cases "fst res"; simp add: after_register_def split_def)+

lemma after_session_lanes: "same_lanes r (snd (snd (after_session W e res (bo, r))))"
  by (cases res)
     (auto simp: after_session_def Let_def after_register_lanes register_fresh_lanes reset_client_def
        disconnected_def split: option.splits prod.splits sum.splits)

lemma open_channel_lanes: "open_channel W e r = (res, r') \<Longrightarrow> same_lanes r r'"
  by (drule open_channel_frame) (erule ssubst, simp)

lemma run_session_none_lanes: "run_session W e r = (res, None, r') \<Longrightarrow> same_lanes r r'"
  by (auto simp: run_session_def dest: open_channel_lanes split: prod.splits sum.splits)

lemma loop_iteration_split:
  assumes "\<not> le_stopping e"
  shows "(\<exists>le bo1 r1. connect_state W e bo r = None \<and> loop_iteration W e bo r = (le, bo1, r1)
            \<and> (\<forall>d. le \<noteq> LoopNext d) \<and> same_lanes r r1)
       \<or> (\<exists>bo1 r1. connect_state W e bo r = Some (bo1, r1) \<and> same_lanes r r1
            \<and> loop_iteration W e bo r =
                (case run_session W (le_session e) r1 of (res, _, r2) \<Rightarrow> after_session W e res (bo1, r2)))"
proof -
  obtain rg ds r1 where rg: "register_fresh W (le_register_before e) r = (rg, ds, r1)"
    by (cases "register_fresh W (le_register_before e) r")
  then have "same_lanes r r1" using register_fresh_lanes[of W "le_register_before e" r] by simp
  then show ?thesis using assms rg
    by (cases rg)
       (auto simp: loop_iteration_def connect_state_def refresh_token_def after_register_def split: sum.splits)
qed

lemma connect_state_ok:
  assumes "kept r0 r" and "connect_state W e bo r = Some (bo1, r1)"
  shows "kept r0 r1"
proof -
  have "kept r0 (snd (snd (refresh_token W e (\<lambda>(bo, r). (LoopNext 0, bo, r)) bo r)))"
    using assms(1) by (auto simp: refresh_token_def split: sum.splits intro!: after_register_kept register_fresh_kept')
  with assms(2) show ?thesis
    by (auto simp: connect_state_def split: prod.splits loop_end.splits)
qed

section \<open>Sessions compose\<close>

text \<open>
  A relation between the runner before some sessions, their traffic and the runner after them. When
  each session establishes it, it is closed under concatenation and it only looks at the lanes, then
  the run loop establishes it, whatever happens between the sessions.
\<close>

locale loop_relation =
  fixes rel :: "'b runner \<Rightarrow> session_traffic list \<Rightarrow> 'b runner \<Rightarrow> bool"
  assumes rel_nil: "same_lanes r r' \<Longrightarrow> rel r [] r'"
    and rel_append: "rel r ts r1 \<Longrightarrow> rel r1 us r2 \<Longrightarrow> rel r (ts @ us) r2"
    and rel_session: "runner_ok r \<Longrightarrow> run_session W e r = (res, Some t, r') \<Longrightarrow> rel r [t] r'"
begin

lemma rel_frame:
  assumes "rel r ts r1" and "same_lanes r0 r" and "same_lanes r1 r2"
  shows "rel r0 ts r2"
  using rel_append[OF rel_append[OF rel_nil[OF assms(2)] assms(1)] rel_nil[OF assms(3)]] by simp

lemma iteration_related:
  assumes "kept r0 r"
  shows "rel r (iteration_traffic W e bo r) (snd (snd (loop_iteration W e bo r)))"
proof (cases "le_stopping e")
  case True
  then show ?thesis by (simp add: iteration_traffic_def loop_iteration_def rel_nil)
next
  case False
  from loop_iteration_split[OF False, of W bo r] show ?thesis
  proof (elim disjE exE conjE)
    fix bo1 r1 assume cs: "connect_state W e bo r = Some (bo1, r1)" and m: "metrics r1 = metrics r" "logs r1 = logs r"
      and it: "loop_iteration W e bo r =
        (case run_session W (le_session e) r1 of (res, _, r2) \<Rightarrow> after_session W e res (bo1, r2))"
    obtain res t r2 where rs: "run_session W (le_session e) r1 = (res, t, r2)"
      by (cases "run_session W (le_session e) r1")
    have fin: "same_lanes r2 (snd (snd (loop_iteration W e bo r)))"
      by (simp add: it rs after_session_lanes)
    have ok: "runner_ok r1" using connect_state_ok[OF assms cs] by (simp add: kept_def)
    show ?thesis
    proof (cases t)
      case None
      with rs have "same_lanes r1 r2" by (auto dest: run_session_none_lanes)
      with None False cs rs m fin show ?thesis by (simp add: iteration_traffic_def rel_nil)
    next
      case (Some tr)
      with rel_session[OF ok] rs have "rel r1 [tr] r2" by simp
      from rel_frame[OF this _ fin] Some False cs rs m show ?thesis by (simp add: iteration_traffic_def)
    qed
  qed (simp add: iteration_traffic_def False rel_nil)
qed

lemma loop_related:
  assumes "kept r0 r"
  shows "rel r (loop_traffic W es bo r) (snd (snd (loop_from W es bo r)))"
  using assms
proof (induction es arbitrary: bo r)
  case (Cons e es)
  obtain le bo' r' where it: "loop_iteration W e bo r = (le, bo', r')" by (cases "loop_iteration W e bo r")
  have first: "rel r (iteration_traffic W e bo r) r'"
    using iteration_related[OF Cons.prems, of W e bo] it by simp
  have "kept r0 r'" using loop_iteration_kept[OF Cons.prems, of W e bo] it by simp
  note rest = rel_append[OF first Cons.IH[OF this, of bo']]
  show ?case using first rest by (cases le) (simp_all add: it split_def)
qed (simp add: rel_nil)

lemma run_related:
  assumes "runner_ok r" and "run_loop W es r = (sleeps, fin, r')"
  shows "rel r (loop_traffic W es (backoff_new (backoff_initial (cfg r)) (backoff_max (cfg r)) True) r) r'"
proof -
  have "kept r r" using assms(1) by (simp add: kept_def same_config_def)
  from loop_related[OF this, of W es "backoff_new (backoff_initial (cfg r)) (backoff_max (cfg r)) True"] assms(2)
  show ?thesis by (simp add: run_loop_def)
qed

end

text \<open>A lane whose sessions balance.\<close>

lemma ledger_sums:
  fixes a b c :: u64
  assumes "a + x = s + l + b" and "b + y = s' + l' + c"
  shows "a + (x + y) = (s + s') + (l + l') + c"
proof -
  have "a + (x + y) = s + l + (b + y)" using assms(1) by (simp add: add.assoc flip: add.assoc)
  then show ?thesis using assms(2) by (simp add: ac_simps)
qed

locale lane_ledger =
  fixes owes :: "'b runner \<Rightarrow> u64"
    and recorded_in :: "session_traffic \<Rightarrow> u64"
    and shipped_in :: "session_traffic \<Rightarrow> u64"
    and lost_in :: "session_traffic \<Rightarrow> u64"
  assumes owes_frame: "same_lanes r r' \<Longrightarrow> owes r' = owes r"
    and session_balances: "runner_ok r \<Longrightarrow> run_session W e r = (res, Some t, r') \<Longrightarrow>
      owes r + recorded_in t = shipped_in t + lost_in t + owes r'"
begin

definition ledger :: "'b runner \<Rightarrow> session_traffic list \<Rightarrow> 'b runner \<Rightarrow> bool" where
  "ledger r ts r' \<longleftrightarrow>
     owes r + sum_list (map recorded_in ts)
       = sum_list (map shipped_in ts) + sum_list (map lost_in ts) + owes r'"

end

sublocale lane_ledger \<subseteq> loop_relation ledger
proof (unfold_locales, goal_cases)
  case (1 r r')
  then show ?case using owes_frame[of r r'] by (simp add: ledger_def)
next
  case (2 r ts r1 us r2)
  then show ?case unfolding ledger_def map_append sum_list_append by (rule ledger_sums)
next
  case (3 r W e res t r')
  then show ?case using session_balances[OF 3] by (simp add: ledger_def)
qed

context lane_ledger
begin

lemma run_ledger:
  assumes "runner_ok r" and "run_loop W es r = (sleeps, fin, r')"
    and "ts = loop_traffic W es (backoff_new (backoff_initial (cfg r)) (backoff_max (cfg r)) True) r"
  shows "owes r + sum_list (map recorded_in ts) = sum_list (map shipped_in ts) + sum_list (map lost_in ts) + owes r'"
  using run_related[OF assms(1,2)] by (simp add: assms(3) ledger_def)

end

section \<open>The two lanes\<close>

text \<open>The metrics lane, in billable calls: \<open>session_billing_ledger\<close> is its balance.\<close>

definition traffic_calls :: "session_traffic \<Rightarrow> u64" where
  "traffic_calls t = of_nat (cnt sample_billable (session_calls t))"

definition traffic_shipped :: "session_traffic \<Rightarrow> u64" where
  "traffic_shipped t = sum_list (map (billable_in \<circ> fst) (session_shipped t))"

definition traffic_lost :: "session_traffic \<Rightarrow> u64" where
  "traffic_lost t = (case Option.bind (final_metrics t) sm_lost of None \<Rightarrow> 0 | Some d \<Rightarrow> billable_in d)"

interpretation billing: lane_ledger "\<lambda>r. billable_owed (metrics r)" traffic_calls traffic_shipped traffic_lost
proof (unfold_locales, goal_cases)
  case (2 r W e res t r')
  then show ?case
    using session_billing_ledger[OF 2] by (simp add: traffic_calls_def traffic_lost_def traffic_shipped_def)
qed simp

text \<open>
  The log lane, in lines: those recorded during a session, the batches handed to the outbound channel,
  and the batches lost, by the flush loop, by the final flush, and by the flush task after the abort.
\<close>

definition session_lines :: "session_traffic \<Rightarrow> log_line_sample list" where
  "session_lines t = log_meanwhile (tr_logs t) @ lt_lines (tr_logs_tail t)"

definition session_logs_shipped :: "session_traffic \<Rightarrow> (log_drained \<times> agent_message) list" where
  "session_logs_shipped t = log_shipped (tr_logs t) @ (case final_logs t of None \<Rightarrow> [] | Some l \<Rightarrow> sl_shipped l)
     @ lt_task_shipped (tr_logs_tail t)"

definition session_logs_lost :: "session_traffic \<Rightarrow> log_drained list" where
  "session_logs_lost t = option_list (log_lost (tr_logs t)) @ option_list (Option.bind (final_logs t) sl_lost)
     @ lt_lost (tr_logs_tail t)"

definition lines_in :: "log_drained \<Rightarrow> u64" where
  "lines_in d = of_nat (length (fst d)) + fst (snd d)"

definition lines_owed :: "log_buffer \<Rightarrow> u64" where
  "lines_owed b = of_nat (length (log_buf b)) + log_dropped_overflow b"

lemma owed_lines: "log_lane.owed b = lines_owed b" "log_lane.worth d = lines_in d"
  by (simp_all add: log_lane.owed_def log_lane.worth_def lines_owed_def lines_in_def)

lemma lost_lines_list: "lost_lines d = sum_list (map lines_in (option_list d))"
  by (cases d) (simp_all add: lost_lines_def owed_lines)

lemma ledger_settled_loss:
  fixes a m s l x f fl y ts tl k :: u64
  assumes "a + m = s + l + x" and "x = f + fl + (y + ts + tl - k)"
  shows "a + (m + k) = s + (f + ts) + (l + (fl + tl)) + y"
proof -
  have "a + (m + k) = s + l + (x + k)" using assms(1) by (simp flip: add.assoc)
  then show ?thesis by (simp add: assms(2))
qed

lemma run_session_body:
  assumes "run_session W e r = (res, Some t, r')"
  obtains uid r1 where "session_body W e uid r1 = (res, t, r')" and "same_lanes r r1"
    and "runner_ok r \<Longrightarrow> runner_ok r1"
proof -
  from assms obtain uid r1 where oc: "open_channel W e r = (Inr uid, r1)" and sb: "session_body W e uid r1 = (res, t, r')"
    by (auto simp: run_session_def split: prod.splits sum.splits)
  have "runner_ok r1" if "runner_ok r"
    using that by (subst open_channel_frame[OF oc]) (simp add: runner_ok_def)
  with that sb open_channel_lanes[OF oc] show thesis by blast
qed

lemma session_log_ledger:
  assumes "runner_ok r" and "run_session W e r = (res, Some t, r')"
  shows "lines_owed (logs r) + of_nat (length (session_lines t))
      = sum_list (map (lines_in \<circ> fst) (session_logs_shipped t)) + sum_list (map lines_in (session_logs_lost t))
        + lines_owed (logs r')"
proof -
  obtain uid r1 where sb: "session_body W e uid r1 = (res, t, r')" and r1: "logs r1 = logs r"
    using assms(2) by (rule run_session_body) simp
  have inv: "log_inv (logs r)" using assms(1) by (simp add: runner_ok_def)
  have tl: "tr_logs t = log_flush_loop (w_enums W) (se_log_ticks e) (se_logs e) (logs r)"
    and r': "logs r' = lt_buf (tr_logs_tail t)"
    by (rule session_body_cases[OF sb], simp add: r1)+
  have loop: "lines_owed (logs r) + of_nat (length (log_meanwhile (tr_logs t)))
      = sum_list (map (lines_in \<circ> fst) (log_shipped (tr_logs t))) + lost_lines (log_lost (tr_logs t))
        + lines_owed (log_after (tr_logs t))"
    using log_flush_ledger[OF inv] unfolding tl lost_lines_def owed_lines comp_def by blast
  have "lines_owed (log_after (tr_logs t))
      = sum_list (map (lines_in \<circ> fst) (case final_logs t of None \<Rightarrow> [] | Some l \<Rightarrow> sl_shipped l))
        + lost_lines (Option.bind (final_logs t) sl_lost)
        + (lines_owed (logs r') + sum_list (map (lines_in \<circ> fst) (lt_task_shipped (tr_logs_tail t)))
           + sum_list (map lines_in (lt_lost (tr_logs_tail t))) - of_nat (length (lt_lines (tr_logs_tail t))))"
    using session_logs_tail[OF _ sb] inv
    unfolding r1 r' log_tail_balance_def comp_def owed_lines by (simp add: lost_lines_def[of None])
  from ledger_settled_loss[OF loop this] show ?thesis
    by (simp add: session_lines_def session_logs_shipped_def session_logs_lost_def lost_lines_list add.assoc)
qed

interpretation log_lines: lane_ledger "\<lambda>r. lines_owed (logs r)" "\<lambda>t. of_nat (length (session_lines t))"
    "\<lambda>t. sum_list (map (lines_in \<circ> fst) (session_logs_shipped t))" "\<lambda>t. sum_list (map lines_in (session_logs_lost t))"
  by unfold_locales (simp, rule session_log_ledger)

text \<open>A flush task loses at most the one batch it has in flight when it goes away.\<close>

definition may_lose :: "log_tail \<Rightarrow> nat" where
  "may_lose st = length (lt_lost st) + (if lt_task st = None then 0 else 1)"

lemma may_lose_buf [simp]: "may_lose (st\<lparr>lt_buf := b\<rparr>) = may_lose st"
  by (simp add: may_lose_def)

lemma may_lose_step: "may_lose (log_tail_step pe op st) \<le> may_lose st"
  by (cases op) (auto simp: may_lose_def drop_log_task_def split: option.split prod.split)

lemma may_lose_steps: "may_lose (fold (log_tail_step pe) ops st) \<le> may_lose st"
proof (induction ops arbitrary: st)
  case (Cons op ops)
  from order_trans[OF Cons.IH[of "log_tail_step pe op st"] may_lose_step] show ?case by simp
qed simp

lemma may_lose_final: "may_lose (sl_after (flush_remaining_logs pe n env st)) \<le> may_lose st"
proof (induction n arbitrary: env st)
  case (Suc n)
  let ?st0 = "fold (log_tail_step pe) (shl_before (env 0)) st"
  obtain d b1 where dr: "log_drain (lt_buf ?st0) = (d, b1)" by (cases "log_drain (lt_buf ?st0)")
  let ?st1 = "?st0\<lparr>lt_buf := b1\<rparr>" and ?st2 = "fold (log_tail_step pe) (shl_during (env 0)) (?st0\<lparr>lt_buf := b1\<rparr>)"
  let ?rest = "flush_remaining_logs pe n (\<lambda>i. env (Suc i))"
  have "may_lose ?st0 \<le> may_lose st" by (rule may_lose_steps)
  then have s1: "may_lose ?st1 \<le> may_lose st" by simp
  have s2: "may_lose ?st2 \<le> may_lose st" using may_lose_steps s1 by (rule order_trans)
  have r1: "may_lose (sl_after (?rest ?st1)) \<le> may_lose st" using Suc.IH s1 by (rule order_trans)
  have r2: "may_lose (sl_after (?rest ?st2)) \<le> may_lose st" using Suc.IH s2 by (rule order_trans)
  show ?case
    using s1 s2 r1 r2
    by (cases "log_batch_to_message pe (shl_now (env 0)) d") (simp_all add: dr Let_def del: fold_simps)
qed simp

lemma session_logs_lost_bound:
  assumes "run_session W e r = (res, Some t, r')"
  shows "length (session_logs_lost t) \<le> 1 + (if tr_final t = None then 0 else 1)"
proof -
  obtain uid r1 where sb: "session_body W e uid r1 = (res, t, r')" using assms by (rule run_session_body)
  have start: "may_lose (log_tail_of (tr_logs t)) + length (option_list (log_lost (tr_logs t))) = 1"
    by (cases "log_lost (tr_logs t)") (simp_all add: log_tail_of_def may_lose_def)
  have "may_lose (flushed_log_tail t) \<le> may_lose (log_tail_of (tr_logs t))"
    using may_lose_final by (simp add: flushed_log_tail_def session_final(2)[OF sb] flush_remaining_def Let_def)
  moreover have "tr_logs_tail t = fold (log_tail_step (w_enums W)) (se_logs_rest e @ [LogAbortLands]) (flushed_log_tail t)"
    by (rule session_body_cases[OF sb]) (simp add: log_settle_def)
  moreover have "length (lt_lost (tr_logs_tail t)) \<le> may_lose (tr_logs_tail t)" by (simp add: may_lose_def)
  ultimately have "length (lt_lost (tr_logs_tail t)) \<le> may_lose (log_tail_of (tr_logs t))"
    by (metis may_lose_steps order_trans)
  moreover have "length (option_list (Option.bind (final_logs t) sl_lost)) \<le> (if tr_final t = None then 0 else 1)"
    using length_option_list by (auto simp: final_logs_def)
  ultimately show ?thesis using start unfolding session_logs_lost_def length_append by linarith
qed

lemma run_session_final:
  assumes "run_session W e r = (res, Some t, r')"
  shows "se_stopping e \<or> final_metrics t = None"
  using assms by (rule run_session_body) (simp add: session_final(1))

lemma traffic_final:
  "t \<in> set (iteration_traffic W e bo r) \<Longrightarrow> se_stopping (le_session e) \<or> final_metrics t = None"
  by (auto simp: iteration_traffic_def dest: run_session_final[OF sym] split: if_splits option.splits prod.splits)

lemma loop_traffic_final:
  "\<forall>e \<in> set es. \<not> se_stopping (le_session e) \<Longrightarrow> t \<in> set (loop_traffic W es bo r) \<Longrightarrow> final_metrics t = None"
  by (induction es arbitrary: bo r) (auto dest: traffic_final split: prod.splits loop_end.splits)

section \<open>The ledger of a run\<close>

text \<open>
  C1. Billing over the whole run: across any number of sessions, with failed connects, refused
  slots, rejected credentials, re-enrolments and backoff sleeps between them, and with flush tasks that
  go on until their abort lands, the billable calls owed at the start plus all those recorded are those
  that reached the outbound channel (as samples or as reported drops), plus what is still owed at the
  end, plus the batches that a final flush lost to a closed channel. When no session was stopped by a
  shutdown that last term is zero: a reconnect changes no count.
\<close>

theorem run_loop_billing_ledger:
  assumes "runner_ok r"
  shows "let ts = loop_traffic W es (backoff_new (backoff_initial (cfg r)) (backoff_max (cfg r)) True) r;
             (sleeps, fin, r') = run_loop W es r
    in billable_owed (metrics r) + sum_list (map traffic_calls ts)
         = sum_list (map traffic_shipped ts) + sum_list (map traffic_lost ts) + billable_owed (metrics r')
       \<and> ((\<forall>e \<in> set es. \<not> se_stopping (le_session e)) \<longrightarrow> sum_list (map traffic_lost ts) = 0)"
proof -
  let ?ts = "loop_traffic W es (backoff_new (backoff_initial (cfg r)) (backoff_max (cfg r)) True) r"
  obtain sleeps fin r' where run: "run_loop W es r = (sleeps, fin, r')" by (cases "run_loop W es r")
  have "sum_list (map traffic_lost ?ts) = 0" if "\<forall>e \<in> set es. \<not> se_stopping (le_session e)"
    using loop_traffic_final[OF that] by (simp add: traffic_lost_def cong: map_cong)
  then show ?thesis using billing.run_ledger[OF assms run refl] by (simp add: Let_def run)
qed

theorem run_loop_billing_ledger_witness:
  "let ts = loop_traffic demo_world [demo_loop_env, demo_loop_env]
         (backoff_new (backoff_initial (cfg demo_runner)) (backoff_max (cfg demo_runner)) True) demo_runner;
       (sleeps, fin, r') = run_loop demo_world [demo_loop_env, demo_loop_env] demo_runner
   in runner_ok demo_runner
     \<and> billable_owed (metrics demo_runner) + sum_list (map traffic_calls ts)
         = sum_list (map traffic_shipped ts) + sum_list (map traffic_lost ts) + billable_owed (metrics r')"
  using run_loop_billing_ledger[OF demo_runner_ok, of demo_world "[demo_loop_env, demo_loop_env]"]
  by (simp add: Let_def split_def demo_runner_ok)

lemma iteration_traffic_session:
  assumes "t \<in> set (iteration_traffic W e bo r)"
  obtains bo1 r1 res r' where "\<not> le_stopping e" and "connect_state W e bo r = Some (bo1, r1)"
    and "run_session W (le_session e) r1 = (res, Some t, r')" and "iteration_traffic W e bo r = [t]"
proof -
  obtain bo1 r1 where cs: "\<not> le_stopping e" "connect_state W e bo r = Some (bo1, r1)"
    using assms by (cases "connect_state W e bo r") (auto simp: iteration_traffic_def split: if_splits)
  obtain res t' r' where rs: "run_session W (le_session e) r1 = (res, t', r')"
    by (cases "run_session W (le_session e) r1")
  from cs rs assms have "t' = Some t" by (cases t') (simp_all add: iteration_traffic_def)
  with that[OF cs] rs cs show thesis by (simp add: iteration_traffic_def)
qed

lemma iteration_logs_lost:
  "length (concat (map session_logs_lost (iteration_traffic W e bo r)))
     \<le> length (iteration_traffic W e bo r) + length (filter (\<lambda>t. tr_final t \<noteq> None) (iteration_traffic W e bo r))"
proof (cases "iteration_traffic W e bo r")
  case (Cons t ts)
  then have "t \<in> set (iteration_traffic W e bo r)" by simp
  then obtain r1 res r' where "run_session W (le_session e) r1 = (res, Some t, r')" "ts = []"
    by (rule iteration_traffic_session) (simp add: Cons)
  with session_logs_lost_bound[OF this(1)] Cons show ?thesis by (cases "tr_final t") auto
qed simp

lemma loop_logs_lost:
  "length (concat (map session_logs_lost (loop_traffic W es bo r)))
     \<le> length (loop_traffic W es bo r) + length (filter (\<lambda>t. tr_final t \<noteq> None) (loop_traffic W es bo r))"
proof (induction es arbitrary: bo r)
  case (Cons e es)
  obtain le bo' r' where it: "loop_iteration W e bo r = (le, bo', r')" by (cases "loop_iteration W e bo r")
  from iteration_logs_lost[of W e bo r] Cons.IH[of bo' r'] show ?case
    by (cases le) (simp_all add: it)
qed simp

text \<open>
  C26. The log lane over the whole run: the lines owed at the start plus all those recorded are those
  that reached the outbound channel (as lines or as reported drops), plus those still owed at the end,
  plus the content of the batches that were lost. A session loses at most one batch, the one its flush
  task had in flight when it went away, and one more when it ended in a final flush.
\<close>

theorem run_loop_log_ledger:
  assumes "runner_ok r"
  shows "let ts = loop_traffic W es (backoff_new (backoff_initial (cfg r)) (backoff_max (cfg r)) True) r;
             (sleeps, fin, r') = run_loop W es r
    in lines_owed (logs r) + sum_list (map (\<lambda>t. of_nat (length (session_lines t))) ts)
         = sum_list (map (\<lambda>t. sum_list (map (lines_in \<circ> fst) (session_logs_shipped t))) ts)
           + sum_list (map (\<lambda>t. sum_list (map lines_in (session_logs_lost t))) ts) + lines_owed (logs r')
       \<and> length (concat (map session_logs_lost ts)) \<le> length ts + length (filter (\<lambda>t. tr_final t \<noteq> None) ts)"
proof -
  obtain sleeps fin r' where run: "run_loop W es r = (sleeps, fin, r')" by (cases "run_loop W es r")
  then show ?thesis using log_lines.run_ledger[OF assms run refl] loop_logs_lost by (simp add: Let_def)
qed

theorem run_loop_log_ledger_witness:
  "let ts = loop_traffic demo_world [demo_loop_env, demo_loop_env]
         (backoff_new (backoff_initial (cfg demo_runner)) (backoff_max (cfg demo_runner)) True) demo_runner
   in runner_ok demo_runner
     \<and> length (concat (map session_logs_lost ts)) \<le> length ts + length (filter (\<lambda>t. tr_final t \<noteq> None) ts)"
  using run_loop_log_ledger[OF demo_runner_ok, of demo_world "[demo_loop_env, demo_loop_env]"]
  by (simp add: Let_def split_def demo_runner_ok)

section \<open>A graceful stop bills every call\<close>

text \<open>What producers record among the operations on a tail. Once its task is gone, nothing else matters.\<close>

fun calls_of :: "tail_op list \<Rightarrow> producer_op list" where
  "calls_of [] = []"
| "calls_of (Producing p # ops) = p # calls_of ops"
| "calls_of (_ # ops) = calls_of ops"

lemma taskless_steps:
  "mt_task st = None \<Longrightarrow> fold (tail_step pe) ops st
     = st\<lparr>mt_buf := fold produce (calls_of ops) (mt_buf st), mt_calls := mt_calls st @ calls_of ops\<rparr>"
proof (induction ops arbitrary: st rule: calls_of.induct)
  case (2 p ops)
  then show ?case using "2.IH"[of "tail_step pe (Producing p) st"] by simp
qed simp_all

lemma aborted_task_gone: "mt_task (fold (tail_step pe) (ops @ [AbortLands]) st) = None"
  by (simp split: option.split)

lemma flushed_owes_nothing: "flushed st m \<Longrightarrow> owed c (mt_buf (sm_after m)) = 0"
  unfolding flushed_def metrics_lane.owed_def by (simp add: drops_of_def)

lemma quiet_stop_owes:
  fixes pe :: proto_enums
  assumes "metrics_inv (mt_buf st)" and "undisturbed env" and "sh_before (env 0) = ops @ [AbortLands]"
    and "0 < batch_cap (mt_buf st)" and "0 < cap (mt_buf st)" and "cap (mt_buf st) \<le> 16 * batch_cap (mt_buf st)"
  defines "m \<equiv> flush_remaining_metrics pe MAX_SHUTDOWN_FLUSH_BATCHES env st"
  shows "sm_lost m = None" and "billable_owed (mt_buf (settle pe rest (sm_after m)))
      = of_nat (cnt sample_billable (produced (calls_of rest)))"
proof -
  have f: "flushed (at_first_drain pe env st) m"
    unfolding m_def by (rule final_metrics_flushed[OF assms(1,2,4-6)])
  then show "sm_lost m = None" by (simp add: flushed_def)
  have "mt_task (sm_after m) = None" using f aborted_task_gone by (simp only: flushed_def assms(3))
  moreover have "metrics_inv (mt_buf (sm_after m))"
    using flush_remaining_metrics_balanced[OF assms(1)] by (simp add: m_def shutdown_balanced_def)
  ultimately show "billable_owed (mt_buf (settle pe rest (sm_after m)))
      = of_nat (cnt sample_billable (produced (calls_of rest)))"
    using owed_produces[of "mt_buf (sm_after m)" True "calls_of rest"] flushed_owes_nothing[OF f, of True]
    by (simp add: settle_def taskless_steps flip: owed_billable)
qed

text \<open>
  C2. A graceful stop costs nothing when the abort lands in time. A session is ended by a shutdown
  request; the aborted flush task is gone by the first drain of the final flush, whatever it and the
  producers did before (drains, sends, a batch in flight that its guard returned); nothing is recorded
  while that flush runs and the outbound channel stays open. Then the billable calls the buffer owed at
  the start of the session and those recorded during it are, in number, exactly those handed to the
  outbound channel, as samples or in reported drops, save those recorded after the final flush, and
  these are what is owed afterwards. So for every buffer whose cap is at most 16 batches.
\<close>

theorem graceful_stop_bills_every_call:
  assumes "runner_ok r" and "run_session W e r = (res, Some t, r')" and "res \<noteq> SessionPanic"
    and "se_stopping e" and "undisturbed (se_final_metrics e)"
    and "sh_before (se_final_metrics e 0) = ops @ [AbortLands]"
    and "0 < batch_cap (metrics r)" and "0 < cap (metrics r)" and "cap (metrics r) \<le> 16 * batch_cap (metrics r)"
  shows "let late = of_nat (cnt sample_billable (produced (calls_of (se_metrics_rest e)))) in
    billable_owed (metrics r) + traffic_calls t = traffic_shipped t + late
    \<and> billable_owed (metrics r') = late"
proof -
  obtain uid r1 where sb: "session_body W e uid r1 = (res, t, r')" and r1: "metrics r1 = metrics r"
    using assms(2) by (rule run_session_body) simp
  have tm: "tr_metrics t = flush_loop (w_enums W) (se_metrics_ticks e) (se_metrics e) (metrics r)"
    by (rule session_body_cases[OF sb]) (simp add: r1)
  let ?st = "tail_of (tr_metrics t)"
  have inv: "metrics_inv (mt_buf ?st)"
    using assms(1) unfolding tm by (simp add: runner_ok_def flush_loop_inv tail_of_balance)
  have caps: "cap (mt_buf ?st) = cap (metrics r)" "batch_cap (mt_buf ?st) = batch_cap (metrics r)"
    using flush_loop_reported[of "w_enums W" "metrics r"] unfolding tm by (simp_all add: reported_def tail_of_balance)
  note quiet = quiet_stop_owes[OF inv assms(5,6), unfolded caps, OF assms(7-9), of "w_enums W"]
  have fin: "final_metrics t = Some (flush_remaining_metrics (w_enums W) MAX_SHUTDOWN_FLUSH_BATCHES (se_final_metrics e) ?st)"
    using session_final(1)[OF sb] assms(3,4) by simp
  have "metrics r' = mt_buf (settle (w_enums W) (se_metrics_rest e) (flushed_tail t))"
    by (rule session_body_cases[OF sb]) simp
  with session_billing_ledger[OF assms(1,2)] fin quiet show ?thesis
    by (simp add: Let_def traffic_shipped_def traffic_calls_def flushed_tail_def)
qed

definition stopping_session :: "bytes session_env" where
  "stopping_session = (demo_session [])\<lparr>se_metrics_rest := [Producing (RecordCall (demo_sample ''y'' Ok))]\<rparr>"

lemma empty_stream_ends_cleanly:
  assumes "run_session W e r = (res, Some t, r')" and "se_inbound e = []"
  shows "res = SessionOk"
proof -
  obtain uid r1 where "session_body W e uid r1 = (res, t, r')" using assms(1) by (rule run_session_body)
  then show ?thesis by (rule session_body_cases) (use assms(2) in auto)
qed

theorem graceful_stop_bills_every_call_witness:
  "\<exists>res t r'. run_session demo_world stopping_session demo_runner = (res, Some t, r')
     \<and> billable_owed (metrics demo_runner) + traffic_calls t = traffic_shipped t + 1
     \<and> billable_owed (metrics r') = 1"
proof -
  have "\<exists>uid r1. open_channel demo_world stopping_session demo_runner = (Inr uid, r1)"
    by (simp add: open_channel_def Let_def authed_client_def connect_def demo_client_def interceptor_call_def
        demo_world_def stopping_session_def demo_session_def try_bind_def)
  then have "\<exists>res t r'. run_session demo_world stopping_session demo_runner = (res, Some t, r')"
    by (auto simp: run_session_def split: prod.splits)
  then obtain res t r' where run: "run_session demo_world stopping_session demo_runner = (res, Some t, r')"
    by blast
  have "res = SessionOk"
    using run by (rule empty_stream_ends_cleanly) (simp add: stopping_session_def demo_session_def)
  moreover have "metrics demo_runner = demo_buffer" by (simp add: demo_runner_def)
  moreover have e: "se_stopping stopping_session" "undisturbed (se_final_metrics stopping_session)"
    "sh_before (se_final_metrics stopping_session 0)
       = [TaskDrains (DateTime 8 0), Producing (RecordCall (demo_sample ''z'' Ok))] @ [AbortLands]"
    "se_metrics_rest stopping_session = [Producing (RecordCall (demo_sample ''y'' Ok))]"
    by (simp_all add: stopping_session_def demo_session_def demo_final_undisturbed) (simp add: demo_final_def)
  moreover have "cnt sample_billable [demo_sample ''y'' Ok] = 1"
    by (simp add: cnt_def sample_billable_def demo_sample_def is_billable_def)
  ultimately show ?thesis
    using graceful_stop_bills_every_call[OF demo_runner_ok run _ e(1-3)] run
    by (auto simp: demo_buffer_eval Let_def)
qed

end
