(* ===== verification/MetricsOrder.thy ===== *)
theory MetricsOrder
  imports Metrics
begin

text \<open>
  Which calls the metrics lane ships, not only how many: the order of the calls is kept through
  overflow, drains, failed sends and aborts, and no call is shipped twice.
\<close>

section \<open>Each operation keeps the order\<close>

lemmas subseq_trans = subseq_order.order_trans
  and subseq_append = list_emb_append_mono[of "(=)"]

lemma produce_in_order:
  "subseq (samples (buf (fold produce ops b))) (samples (buf b) @ produced ops)"
proof (induction ops arbitrary: b)
  case (Cons op ops)
  have "subseq (samples (buf (produce op b))) (samples (buf b) @ produced [op])"
    using record_keeps_order by (cases op) auto
  from subseq_append[OF this subseq_order.order_refl[of "produced ops"]] Cons[of "produce op b"]
  have "subseq (samples (buf (fold produce ops (produce op b)))) ((samples (buf b) @ produced [op]) @ produced ops)"
    by (rule subseq_trans[rotated])
  then show ?case by (cases op) simp_all
qed simp

lemma requeue_in_order:
  "subseq (samples (buf (requeue_samples ss b))) (rev ss @ samples (buf b))"
proof (induction ss arbitrary: b)
  case (Cons s ss)
  let ?b = "if length (samples (buf b)) \<ge> cap b then count_drop (outcome s) b
        else b\<lparr>buf := ring_push_front s (buf b)\<rparr>"
  have "subseq (samples (buf ?b)) (s # samples (buf b))" by auto
  from subseq_append[OF subseq_order.order_refl[of "rev ss"] this] Cons[of ?b]
  show ?case by (simp add: subseq_trans)
qed simp

lemma in_flight_in_order:
  "subseq (samples (buf (in_flight_drop (Some d) b))) (batch_samples d @ samples (buf b))"
  using requeue_in_order[of "rev (batch_samples d)" b]
  by (auto simp: in_flight_drop_def requeue_front_def Let_def intro: list_emb_append2)

section \<open>The flush loop keeps the order\<close>

definition in_order :: "metrics_buffer \<Rightarrow> flush_result \<Rightarrow> bool" where
  "in_order b r \<longleftrightarrow>
     subseq (concat (map (batch_samples \<circ> fst) (shipped r)) @ samples (buf (after r)))
       (samples (buf b) @ produced (meanwhile r))"

lemma in_order_seq:
  assumes "subseq (concat (map (batch_samples \<circ> fst) sent) @ samples (buf b')) (samples (buf b) @ produced ops)"
    and "in_order b' r"
  shows "in_order b (r\<lparr>shipped := sent @ shipped r, meanwhile := ops @ meanwhile r\<rparr>)"
proof -
  let ?sent = "concat (map (batch_samples \<circ> fst) sent)"
  have "subseq (?sent @ concat (map (batch_samples \<circ> fst) (shipped r)) @ samples (buf (after r)))
      ((?sent @ samples (buf b')) @ produced (meanwhile r))"
    using subseq_append[OF subseq_order.order_refl[of ?sent] assms(2)[unfolded in_order_def]] by simp
  also have "subseq \<dots> ((samples (buf b) @ produced ops) @ produced (meanwhile r))"
    using subseq_append[OF assms(1) subseq_order.order_refl] .
  finally show ?thesis by (simp add: in_order_def)
qed

lemma drain_in_order:
  assumes "drain now (fold produce ops b) = (d, b1)"
  shows "subseq (batch_samples d @ samples (buf b1)) (samples (buf b) @ produced ops)"
    and "subseq (batch_samples d @ samples (buf (fold produce during b1))) (samples (buf b) @ produced (ops @ during))"
proof -
  have "batch_samples d @ samples (buf b1) = samples (buf (fold produce ops b))"
    using drain_sel(1,2)[of now "fold produce ops b"] by (simp add: assms)
  then show drained: "subseq (batch_samples d @ samples (buf b1)) (samples (buf b) @ produced ops)"
    using produce_in_order by simp
  have "subseq (batch_samples d @ samples (buf (fold produce during b1)))
      ((batch_samples d @ samples (buf b1)) @ produced during)"
    using subseq_append[OF subseq_order.order_refl produce_in_order] by simp
  also have "subseq \<dots> ((samples (buf b) @ produced ops) @ produced during)"
    using subseq_append[OF drained subseq_order.order_refl] .
  finally show "subseq (batch_samples d @ samples (buf (fold produce during b1))) (samples (buf b) @ produced (ops @ during))"
    by simp
qed

lemma flush_batches_in_order: "in_order b (flush_batches pe n env b)"
proof (induction n arbitrary: env b)
  case (Suc n)
  let ?e = "env 0"
  obtain d b1 where dr: "drain (clock ?e) (fold produce (before_drain ?e) b) = (d, b1)"
    by (cases "drain (clock ?e) (fold produce (before_drain ?e) b)")
  let ?b2 = "fold produce (during_send ?e) b1" and ?ops = "before_drain ?e @ during_send ?e"
  note sub = drain_in_order(1)[OF dr] drain_in_order(2)[OF dr, of "during_send ?e"]
  have stays: "subseq (samples (buf b1)) (samples (buf b) @ produced (before_drain ?e))"
    using subseq_trans[OF suffix_imp_subseq sub(1)] by (auto simp: suffix_def)
  have returned: "subseq (samples (buf (in_flight_drop (Some d) ?b2))) (samples (buf b) @ produced ?ops)"
    using in_flight_in_order sub(2) by (rule subseq_trans)
  note rest = Suc.IH[of _ "\<lambda>i. env (Suc i)"]
  show ?case
  proof (cases "batch_to_message pe (clock ?e) d")
    case None
    then show ?thesis
      using in_order_seq[of "[]" b1 b "before_drain ?e", OF _ rest] stays
      by (simp add: dr Let_def) (simp add: in_order_def)
  next
    case (Some msg)
    then show ?thesis
      using in_order_seq[of "[(d, msg)]" ?b2 b ?ops, OF _ rest] sub(2) returned
      by (cases "send_ends ?e"; simp add: dr Let_def; simp add: in_order_def)
  qed
qed (simp add: in_order_def)

lemma flush_loop_in_order: "in_order b (flush_loop pe k env b)"
proof (induction k arbitrary: env b)
  case (Suc k)
  let ?r = "flush_batches pe (batches_per_tick b) (sends (env 0)) b"
  let ?idle = "fold produce (idle (env 0)) (after ?r)"
  have first: "in_order b ?r" by (rule flush_batches_in_order)
  let ?sent = "concat (map (batch_samples \<circ> fst) (shipped ?r))"
  have "subseq (?sent @ samples (buf ?idle)) ((?sent @ samples (buf (after ?r))) @ produced (idle (env 0)))"
    using subseq_append[OF subseq_order.order_refl produce_in_order] by simp
  also have "subseq \<dots> ((samples (buf b) @ produced (meanwhile ?r)) @ produced (idle (env 0)))"
    using subseq_append[OF first[unfolded in_order_def] subseq_order.order_refl] .
  finally have "subseq (?sent @ samples (buf ?idle)) (samples (buf b) @ produced (meanwhile ?r @ idle (env 0)))"
    by simp
  then have "in_order b (flush_loop pe k (\<lambda>i. env (Suc i)) b3\<lparr>shipped := shipped ?r @ shipped (flush_loop pe k (\<lambda>i. env (Suc i)) b3),
      meanwhile := (meanwhile ?r @ idle (env 0)) @ meanwhile (flush_loop pe k (\<lambda>i. env (Suc i)) b3)\<rparr>)"
    if "samples (buf b3) = samples (buf ?idle)" for b3
    using in_order_seq[of "shipped ?r" b3 b "meanwhile ?r @ idle (env 0)", OF _ Suc.IH] that by simp
  then show ?case using first by (simp add: Let_def)
qed (simp add: in_order_def)

section \<open>Properties\<close>

text \<open>
  C21. The calls go out in the order they were recorded, and none goes out twice. For every run of the
  flush loop, under any interleaving of producers, failed sends and aborts, the calls in the reports
  sent, followed by those still buffered, are a subsequence of those buffered at the start followed
  by those recorded meanwhile. With the ledger, which counts every call that is missing from it as a
  drop, this says exactly what becomes of each call.
\<close>

theorem calls_ship_in_order_and_once:
  "subseq (concat (map (batch_samples \<circ> fst) (shipped (flush_loop pe k env b)))
             @ samples (buf (after (flush_loop pe k env b))))
     (samples (buf b) @ produced (meanwhile (flush_loop pe k env b)))"
  using flush_loop_in_order[of b pe k env] by (simp add: in_order_def)

end
