(* ===== verification/RunOnce.thy ===== *)
theory RunOnce
  imports RunLedger MetricsOrder "HOL-Library.Multiset"
begin

text \<open>
  No call is billed twice, over the whole run. The ledgers count; here the calls themselves are
  followed. What a session has handed to the outbound channel (by its flush loop, by the final flush
  and by a flush task on its way out), together with what is buffered or in flight, is at every point
  contained, as a multiset, in what was buffered at the start and recorded since. The difference is
  what overflow dropped and what a closed final flush lost.
\<close>

section \<open>One lane after the abort\<close>

lemma subseq_mset: "subseq xs ys \<Longrightarrow> mset xs \<subseteq># mset ys"
  by (induction rule: list_emb.induct) (auto intro: subset_mset.order_trans)

abbreviation buffered_calls :: "metrics_buffer \<Rightarrow> tool_call_sample multiset" where
  "buffered_calls b \<equiv> mset (samples (buf b))"

definition shipped_calls :: "(drained \<times> agent_message) list \<Rightarrow> tool_call_sample multiset" where
  "shipped_calls xs = mset (concat (map (batch_samples \<circ> fst) xs))"

lemma shipped_calls_simps [simp]:
  "shipped_calls [] = {#}" "shipped_calls ((d, msg) # xs) = mset (batch_samples d) + shipped_calls xs"
  "shipped_calls (xs @ ys) = shipped_calls xs + shipped_calls ys"
  by (simp_all add: shipped_calls_def)

definition tail_calls :: "metrics_tail \<Rightarrow> tool_call_sample multiset" where
  "tail_calls st = buffered_calls (mt_buf st)
     + (case in_flight st of None \<Rightarrow> {#} | Some d \<Rightarrow> mset (batch_samples d)) + shipped_calls (mt_task_shipped st)"

definition contained :: "tool_call_sample multiset \<Rightarrow> tool_call_sample multiset \<Rightarrow> metrics_tail \<Rightarrow> bool" where
  "contained sent start st \<longleftrightarrow> sent + tail_calls st \<subseteq># start + mset (produced (mt_calls st))"

lemma buffered_produce: "buffered_calls (produce p b) \<subseteq># buffered_calls b + mset (produced [p])"
  using subseq_mset[OF produce_in_order[of "[p]" b]] by simp

lemma buffered_drain: "drain now b = (d, b1) \<Longrightarrow> buffered_calls b = mset (batch_samples d) + buffered_calls b1"
  using drain_sel(1,2)[of now b] by (simp flip: mset_append)

lemma buffered_returned: "buffered_calls (in_flight_drop (Some d) b) \<subseteq># mset (batch_samples d) + buffered_calls b"
  using subseq_mset[OF in_flight_in_order[of d b]] by simp

lemma tail_step_calls:
  "tail_calls (tail_step pe op st) \<subseteq># tail_calls st + mset (produced (calls_of [op]))"
  "mt_calls (tail_step pe op st) = mt_calls st @ calls_of [op]"
proof -
  show "mt_calls (tail_step pe op st) = mt_calls st @ calls_of [op]"
    by (cases op) (auto split: option.splits prod.splits)
  show "tail_calls (tail_step pe op st) \<subseteq># tail_calls st + mset (produced (calls_of [op]))"
  proof (cases op)
    case (Producing p)
    then show ?thesis
      using buffered_produce[of p "mt_buf st"] by (simp add: tail_calls_def in_flight_def ac_simps)
  next
    case (TaskDrains now)
    then show ?thesis
      by (auto simp: tail_calls_def in_flight_def dest: buffered_drain split: option.splits prod.splits)
  next
    case AbortLands
    then show ?thesis
      using buffered_returned[of _ "mt_buf st"]
      by (auto simp: tail_calls_def in_flight_def in_flight_drop_def[of None] ac_simps split: option.splits)
  qed (use buffered_returned[of _ "mt_buf st"] in \<open>auto simp: tail_calls_def in_flight_def ac_simps split: option.splits\<close>)
qed

lemma contained_step: "contained sent start st \<Longrightarrow> contained sent start (tail_step pe op st)"
  using subset_mset.add_mono[OF subset_mset.order_refl[of sent] tail_step_calls(1)[of pe op st]]
  unfolding contained_def tail_step_calls(2)
  by (auto simp: ac_simps intro: subset_mset.order_trans subset_mset.add_mono)

lemma contained_steps: "contained sent start st \<Longrightarrow> contained sent start (fold (tail_step pe) ops st)"
  by (induction ops arbitrary: st) (simp_all add: contained_step)

lemma contained_drain:
  assumes "contained sent start st" and "drain now (mt_buf st) = (d, b1)"
  shows "contained (sent + mset (batch_samples d)) start (st\<lparr>mt_buf := b1\<rparr>)"
  using assms(1) buffered_drain[OF assms(2)] by (simp add: contained_def tail_calls_def in_flight_def ac_simps)

lemma contained_forget: "contained (sent + x) start st \<Longrightarrow> contained sent start st"
  unfolding contained_def by (erule subset_mset.order_trans[rotated]) simp

lemma flush_remaining_contained:
  "contained sent start st \<Longrightarrow>
     contained (sent + shipped_calls (sm_shipped (flush_remaining_metrics pe n env st))) start
       (sm_after (flush_remaining_metrics pe n env st))"
proof (induction n arbitrary: sent env st)
  case (Suc n)
  let ?st0 = "fold (tail_step pe) (sh_before (env 0)) st"
  obtain d b1 where dr: "drain (sh_now (env 0)) (mt_buf ?st0) = (d, b1)"
    by (cases "drain (sh_now (env 0)) (mt_buf ?st0)")
  let ?sent = "sent + mset (batch_samples d)"
  let ?st1 = "?st0\<lparr>mt_buf := b1\<rparr>" and ?st2 = "fold (tail_step pe) (sh_during (env 0)) (?st0\<lparr>mt_buf := b1\<rparr>)"
  have c1: "contained ?sent start ?st1" using contained_steps[OF Suc.prems] dr by (rule contained_drain)
  have c2: "contained ?sent start ?st2" using c1 by (rule contained_steps)
  show ?case
    using contained_forget[OF c1] contained_forget[OF c2] c2 Suc.IH[OF c2, of "\<lambda>i. env (Suc i)"]
      Suc.IH[OF contained_forget[OF c1], of "\<lambda>i. env (Suc i)"]
    by (cases "batch_to_message pe (sh_now (env 0)) d") (simp_all add: dr Let_def add.assoc)
qed simp

section \<open>Sessions and runs\<close>

definition ships_once :: "'b runner \<Rightarrow> session_traffic list \<Rightarrow> 'b runner \<Rightarrow> bool" where
  "ships_once r ts r' \<longleftrightarrow>
     shipped_calls (concat (map session_shipped ts)) + buffered_calls (metrics r')
       \<subseteq># buffered_calls (metrics r) + mset (concat (map session_calls ts))"

lemma tail_of_contained:
  assumes "subseq (concat (map (batch_samples \<circ> fst) (shipped m)) @ samples (buf (after m))) (samples (buf b) @ produced (meanwhile m))"
  shows "contained (shipped_calls (shipped m)) (buffered_calls b + mset (produced (meanwhile m))) (tail_of m)"
  using subseq_mset[OF assms]
  by (simp add: contained_def tail_calls_def in_flight_def tail_of_def shipped_calls_def)

lemma session_ships_once:
  assumes "runner_ok r" and "run_session W e r = (res, Some t, r')"
  shows "ships_once r [t] r'"
proof -
  obtain uid r1 where sb: "session_body W e uid r1 = (res, t, r')" and r1: "metrics r1 = metrics r"
    using assms(2) by (rule run_session_body) simp
  have tm: "tr_metrics t = flush_loop (w_enums W) (se_metrics_ticks e) (se_metrics e) (metrics r)"
    and tail: "tr_metrics_tail t = settle (w_enums W) (se_metrics_rest e) (flushed_tail t)"
    and r': "metrics r' = mt_buf (tr_metrics_tail t)"
    by (rule session_body_cases[OF sb], simp add: r1)+
  let ?start = "buffered_calls (metrics r) + mset (produced (meanwhile (tr_metrics t)))"
  let ?final = "case final_metrics t of None \<Rightarrow> [] | Some m \<Rightarrow> sm_shipped m"
  have "contained (shipped_calls (shipped (tr_metrics t))) ?start (tail_of (tr_metrics t))"
    using flush_loop_in_order[of "metrics r"] by (intro tail_of_contained) (simp add: tm in_order_def)
  then have "contained (shipped_calls (shipped (tr_metrics t)) + shipped_calls ?final) ?start (flushed_tail t)"
    using flush_remaining_contained by (simp add: flushed_tail_def session_final(1)[OF sb])
  then have "contained (shipped_calls (shipped (tr_metrics t)) + shipped_calls ?final) ?start (tr_metrics_tail t)"
    unfolding tail settle_def by (intro contained_step contained_steps)
  moreover have "in_flight (tr_metrics_tail t) = None"
    by (simp add: tail settle_def in_flight_def split: option.split)
  ultimately show ?thesis
    by (simp add: contained_def tail_calls_def ships_once_def session_shipped_def session_calls_def r' ac_simps)
qed

lemma ships_once_append:
  assumes "ships_once r ts r1" and "ships_once r1 us r2"
  shows "ships_once r (ts @ us) r2"
  using subset_mset.add_mono[OF assms[unfolded ships_once_def]]
  by (simp add: ships_once_def ac_simps)

interpretation once: loop_relation ships_once
  by unfold_locales (simp add: ships_once_def, erule (1) ships_once_append, erule (1) session_ships_once)

text \<open>
  C3. No call is billed twice. Over any number of sessions of the run loop, with failed sends, batches
  returned to the buffer, flush tasks that go on after their abort and final flushes, the calls in all
  reports handed to an outbound channel, together with those still buffered at the end, are contained,
  with multiplicity, in the calls buffered at the start and those recorded meanwhile.
\<close>

theorem no_call_ships_twice:
  assumes "runner_ok r"
  shows "let ts = loop_traffic W es (backoff_new (backoff_initial (cfg r)) (backoff_max (cfg r)) True) r;
             (sleeps, fin, r') = run_loop W es r
    in mset (concat (map (batch_samples \<circ> fst) (concat (map session_shipped ts)))) + mset (samples (buf (metrics r')))
         \<subseteq># mset (samples (buf (metrics r))) + mset (concat (map session_calls ts))"
proof -
  obtain sleeps fin r' where run: "run_loop W es r = (sleeps, fin, r')" by (cases "run_loop W es r")
  from once.run_related[OF assms run] show ?thesis
    by (simp add: run ships_once_def shipped_calls_def)
qed

theorem no_call_ships_twice_witness:
  "let ts = loop_traffic demo_world [demo_loop_env, demo_loop_env]
         (backoff_new (backoff_initial (cfg demo_runner)) (backoff_max (cfg demo_runner)) True) demo_runner
   in runner_ok demo_runner
     \<and> mset (concat (map (batch_samples \<circ> fst) (concat (map session_shipped ts))))
         \<subseteq># mset (samples (buf (metrics demo_runner))) + mset (concat (map session_calls ts))"
  using no_call_ships_twice[OF demo_runner_ok, of demo_world "[demo_loop_env, demo_loop_env]"]
  by (auto simp: Let_def split_def demo_runner_ok intro: subset_mset.order_trans[rotated])

end
