(* ===== verification/Shutdown.thy ===== *)
theory Shutdown
  imports Prelude
begin

text \<open>
  The graceful stop: \<open>AgentShutdown\<close> with \<open>trigger\<close> and \<open>finished\<close>, and the places where
  \<open>run_loop\<close> and \<open>run_session\<close> meet it. Callers and the run loop are threads that interleave at
  every atomic access; \<open>shutdown_step\<close> is one access by one of them. \<open>tokio::sync::Notify\<close> is a
  parameter.
\<close>

section \<open>The parameter: tokio's Notify\<close>

text \<open>
  \<open>notified\<close> creates a future, \<open>notify_waiters\<close> is a call on the object, \<open>woken w n\<close> is what polling
  the future \<open>w\<close> gives when the object is in state \<open>n\<close>.
\<close>

record ('n, 'w) notify_ops =
  notify_new :: 'n
  notified :: "'n \<Rightarrow> 'w"
  notify_waiters :: "'n \<Rightarrow> 'n"
  woken :: "'w \<Rightarrow> 'n \<Rightarrow> bool"

text \<open>
  The documented contract: a future receives the \<open>notify_waiters\<close> calls made after it was created,
  polled or not, and none made before.
\<close>

definition notify_contract :: "('n, 'w) notify_ops \<Rightarrow> bool" where
  "notify_contract N \<longleftrightarrow> (\<forall>n k. woken N (notified N n) ((notify_waiters N ^^ k) n) \<longleftrightarrow> 0 < k)"

text \<open>An instance that meets it: the object counts calls, a future remembers the count it saw.\<close>

definition counting_notify :: "(nat, nat) notify_ops" where
  "counting_notify = \<lparr>notify_new = 0, notified = id, notify_waiters = Suc, woken = (\<lambda>w n. w < n)\<rparr>"

section \<open>The handle and its operations\<close>

record 'n agent_shutdown =
  sd_notify :: 'n
  stopping :: bool
  sd_done :: 'n
  sd_finished :: bool

definition shutdown_new :: "('n, 'w) notify_ops \<Rightarrow> 'n agent_shutdown" where
  "shutdown_new N =
     \<lparr>sd_notify = notify_new N, stopping = False, sd_done = notify_new N, sd_finished = False\<rparr>"

text \<open>\<open>trigger\<close>: store the flag, then wake the waiters.\<close>

datatype trigger_pc = TrigStart | TrigStored | TrigReturned

fun trigger_step :: "('n, 'w) notify_ops \<Rightarrow> trigger_pc \<Rightarrow> 'n agent_shutdown
    \<Rightarrow> (trigger_pc \<times> 'n agent_shutdown) option" where
  "trigger_step N TrigStart s = Some (TrigStored, s\<lparr>stopping := True\<rparr>)"
| "trigger_step N TrigStored s = Some (TrigReturned, s\<lparr>sd_notify := notify_waiters N (sd_notify s)\<rparr>)"
| "trigger_step N TrigReturned s = None"

text \<open>\<open>finished\<close>: load, create the waiter, load again, await. It only reads the handle.\<close>

datatype 'w finished_pc =
  FinStart | FinLoaded | FinRegistered 'w | FinAwaiting 'w | FinReturned

fun finished_step :: "('n, 'w) notify_ops \<Rightarrow> 'w finished_pc \<Rightarrow> 'n agent_shutdown
    \<Rightarrow> 'w finished_pc option" where
  "finished_step N FinStart s = Some (if sd_finished s then FinReturned else FinLoaded)"
| "finished_step N FinLoaded s = Some (FinRegistered (notified N (sd_done s)))"
| "finished_step N (FinRegistered w) s = Some (if sd_finished s then FinReturned else FinAwaiting w)"
| "finished_step N (FinAwaiting w) s = (if woken N w (sd_done s) then Some FinReturned else None)"
| "finished_step N FinReturned s = None"

section \<open>The run loop's side\<close>

text \<open>
  Where \<open>run\<close> stands: before its loop, at the check of \<open>stopping\<close>, storing \<open>shutdown_finished\<close>,
  notifying, getting a session open, in the \<open>select!\<close> with its \<open>notified()\<close> future, past it with
  the lanes aborted, in the shutdown flush, handling the session's outcome, and out of it with
  \<open>Ok\<close> or \<open>Err\<close>.
\<close>

datatype 'w run_pc =
  RunStart | RunCheck | RunFinish | RunNotify | RunConnect | RunSelect 'w | RunAborted | RunFlush
  | RunAfter | RunReturned | RunFailed

text \<open>
  What happens next to the run loop: it goes on, the session fails before the \<open>select!\<close>, a \<open>?\<close>
  leaves \<open>run\<close> with an error, the inbound stream ends, the \<open>notified()\<close> branch is taken.
\<close>

datatype run_move = Proceeds | SessionFails | Errs | StreamEnds | Woken

text \<open>The head of the loop: check the flag, and if it is set raise the completion flag and notify.\<close>

fun stop_check :: "('n, 'w) notify_ops \<Rightarrow> 'w run_pc \<Rightarrow> 'n agent_shutdown
    \<Rightarrow> ('w run_pc \<times> 'n agent_shutdown) option" where
  "stop_check N RunCheck s = Some (if stopping s then RunFinish else RunConnect, s)"
| "stop_check N RunFinish s = Some (RunNotify, s\<lparr>sd_finished := True\<rparr>)"
| "stop_check N RunNotify s = Some (RunReturned, s\<lparr>sd_done := notify_waiters N (sd_done s)\<rparr>)"
| "stop_check N pc s = None"

text \<open>The end of a session: the \<open>select!\<close>, whose future is created on entry, the aborts, the flush.\<close>

fun session_stop :: "('n, 'w) notify_ops \<Rightarrow> run_move \<Rightarrow> 'w run_pc \<Rightarrow> 'n agent_shutdown
    \<Rightarrow> ('w run_pc \<times> 'n agent_shutdown) option" where
  "session_stop N Proceeds RunConnect s = Some (RunSelect (notified N (sd_notify s)), s)"
| "session_stop N StreamEnds (RunSelect w) s = Some (RunAborted, s)"
| "session_stop N Woken (RunSelect w) s = (if woken N w (sd_notify s) then Some (RunAborted, s) else None)"
| "session_stop N Proceeds RunAborted s = Some (if stopping s then RunFlush else RunAfter, s)"
| "session_stop N Proceeds RunFlush s = Some (RunAfter, s)"
| "session_stop N mv pc s = None"

text \<open>The whole of \<open>run\<close> as the handle sees it; \<open>register_fresh\<close> may leave it with an error.\<close>

fun run_step :: "('n, 'w) notify_ops \<Rightarrow> run_move \<Rightarrow> 'w run_pc \<Rightarrow> 'n agent_shutdown
    \<Rightarrow> ('w run_pc \<times> 'n agent_shutdown) option" where
  "run_step N Proceeds RunStart s = Some (RunCheck, s)"
| "run_step N Errs RunStart s = Some (RunFailed, s)"
| "run_step N Proceeds RunCheck s = stop_check N RunCheck s"
| "run_step N Proceeds RunFinish s = stop_check N RunFinish s"
| "run_step N Proceeds RunNotify s = stop_check N RunNotify s"
| "run_step N Proceeds RunConnect s = session_stop N Proceeds RunConnect s"
| "run_step N SessionFails RunConnect s = Some (RunAfter, s)"
| "run_step N Errs RunConnect s = Some (RunFailed, s)"
| "run_step N StreamEnds (RunSelect w) s = session_stop N StreamEnds (RunSelect w) s"
| "run_step N Woken (RunSelect w) s = session_stop N Woken (RunSelect w) s"
| "run_step N Proceeds RunAborted s = session_stop N Proceeds RunAborted s"
| "run_step N Proceeds RunFlush s = session_stop N Proceeds RunFlush s"
| "run_step N Proceeds RunAfter s = Some (RunCheck, s)"
| "run_step N Errs RunAfter s = Some (RunFailed, s)"
| "run_step N mv pc s = None"

section \<open>All threads together\<close>

record ('n, 'w) shutdown_system =
  handle :: "'n agent_shutdown"
  triggers :: "nat \<Rightarrow> trigger_pc"
  waiters :: "nat \<Rightarrow> 'w finished_pc"
  run_at :: "'w run_pc"

definition system_start :: "('n, 'w) notify_ops \<Rightarrow> ('n, 'w) shutdown_system" where
  "system_start N =
     \<lparr>handle = shutdown_new N, triggers = (\<lambda>_. TrigStart), waiters = (\<lambda>_. FinStart),
      run_at = RunStart\<rparr>"

inductive shutdown_step ::
  "('n, 'w) notify_ops \<Rightarrow> ('n, 'w) shutdown_system \<Rightarrow> ('n, 'w) shutdown_system \<Rightarrow> bool"
  for N where
  Trigger: "trigger_step N (triggers s i) (handle s) = Some (pc, h)
    \<Longrightarrow> shutdown_step N s (s\<lparr>triggers := (triggers s)(i := pc), handle := h\<rparr>)"
| Finished: "finished_step N (waiters s i) (handle s) = Some pc
    \<Longrightarrow> shutdown_step N s (s\<lparr>waiters := (waiters s)(i := pc)\<rparr>)"
| Run: "run_step N mv (run_at s) (handle s) = Some (pc, h)
    \<Longrightarrow> shutdown_step N s (s\<lparr>run_at := pc, handle := h\<rparr>)"

inductive_cases shutdown_stepE: "shutdown_step N s s'"

fun_cases trigger_stepE: "trigger_step N pc h = Some r"
fun_cases finished_awaitE: "finished_step N (FinAwaiting w) h = Some pc"
fun_cases run_failedE: "run_step N mv RunFailed h = Some r"

definition reachable :: "('n, 'w) notify_ops \<Rightarrow> ('n, 'w) shutdown_system \<Rightarrow> bool" where
  "reachable N s \<longleftrightarrow> (shutdown_step N)\<^sup>*\<^sup>* (system_start N) s"

text \<open>One thread running alone: the run loop over a list of moves, a \<open>finished\<close> caller for \<open>n\<close> steps.\<close>

fun run_moves :: "('n, 'w) notify_ops \<Rightarrow> run_move list \<Rightarrow> ('n, 'w) shutdown_system
    \<Rightarrow> ('n, 'w) shutdown_system option" where
  "run_moves N [] s = Some s"
| "run_moves N (mv # mvs) s =
     (case run_step N mv (run_at s) (handle s) of
        None \<Rightarrow> None
      | Some (pc, h) \<Rightarrow> run_moves N mvs (s\<lparr>run_at := pc, handle := h\<rparr>))"

fun waiter_steps :: "('n, 'w) notify_ops \<Rightarrow> nat \<Rightarrow> 'n agent_shutdown \<Rightarrow> 'w finished_pc
    \<Rightarrow> 'w finished_pc" where
  "waiter_steps N 0 h pc = pc"
| "waiter_steps N (Suc n) h pc =
     (case finished_step N pc h of None \<Rightarrow> pc | Some pc' \<Rightarrow> waiter_steps N n h pc')"

section \<open>Futures that a Notify has issued\<close>

definition issued :: "('n, 'w) notify_ops \<Rightarrow> 'w \<Rightarrow> 'n \<Rightarrow> bool" where
  "issued N w n \<longleftrightarrow> (\<exists>m k. w = notified N m \<and> n = (notify_waiters N ^^ k) m)"

lemma issued_now [intro, simp]: "issued N (notified N n) n"
  unfolding issued_def by (rule exI[of _ n], rule exI[of _ 0]) simp

lemma issued_notify [intro]: "issued N w n \<Longrightarrow> issued N w (notify_waiters N n)"
  unfolding issued_def by (metis funpow.simps(2) comp_apply)

lemma woken_by_notify: "notify_contract N \<Longrightarrow> issued N w n \<Longrightarrow> woken N w (notify_waiters N n)"
  unfolding issued_def notify_contract_def
  by (metis funpow.simps(2) comp_apply zero_less_Suc)

lemma not_woken_at_creation: "notify_contract N \<Longrightarrow> \<not> woken N (notified N n) n"
  unfolding notify_contract_def by (metis funpow_0 less_numeral_extra(3))

lemma counting_notify_contract: "notify_contract counting_notify"
proof -
  have "(Suc ^^ k) n = k + n" for k n by (induction k) simp_all
  then show ?thesis by (simp add: notify_contract_def counting_notify_def)
qed

section \<open>The invariant of the threads\<close>

definition run_inv :: "('n, 'w) notify_ops \<Rightarrow> 'n agent_shutdown \<Rightarrow> 'w run_pc \<Rightarrow> bool" where
  "run_inv N h pc \<longleftrightarrow>
     (sd_finished h \<longleftrightarrow> pc \<in> {RunNotify, RunReturned})
     \<and> (pc \<in> {RunFinish, RunNotify, RunReturned} \<longrightarrow> stopping h)
     \<and> (\<forall>w. pc = RunSelect w \<longrightarrow> issued N w (sd_notify h) \<and> (woken N w (sd_notify h) \<longrightarrow> stopping h))"

definition waiter_inv :: "('n, 'w) notify_ops \<Rightarrow> 'n agent_shutdown \<Rightarrow> 'w run_pc \<Rightarrow> 'w finished_pc \<Rightarrow> bool" where
  "waiter_inv N h pc wpc \<longleftrightarrow>
     (case wpc of
        FinRegistered w \<Rightarrow> issued N w (sd_done h) \<and> (woken N w (sd_done h) \<longrightarrow> sd_finished h)
      | FinAwaiting w \<Rightarrow> issued N w (sd_done h) \<and> (woken N w (sd_done h) \<longrightarrow> sd_finished h)
          \<and> (pc = RunReturned \<longrightarrow> woken N w (sd_done h))
      | FinReturned \<Rightarrow> sd_finished h
      | _ \<Rightarrow> True)"

definition shutdown_inv :: "('n, 'w) notify_ops \<Rightarrow> ('n, 'w) shutdown_system \<Rightarrow> bool" where
  "shutdown_inv N s \<longleftrightarrow>
     (\<forall>i. triggers s i \<noteq> TrigStart \<longrightarrow> stopping (handle s))
     \<and> run_inv N (handle s) (run_at s)
     \<and> (\<forall>i. waiter_inv N (handle s) (run_at s) (waiters s i))"

lemma shutdown_inv_start: "shutdown_inv N (system_start N)"
  by (simp add: shutdown_inv_def run_inv_def waiter_inv_def system_start_def shutdown_new_def)

lemma trigger_keeps_inv:
  assumes "trigger_step N (triggers s i) (handle s) = Some (pc, h)" "shutdown_inv N s" "notify_contract N"
  shows "shutdown_inv N (s\<lparr>triggers := (triggers s)(i := pc), handle := h\<rparr>)"
proof (cases "triggers s i")
  case TrigStart
  then show ?thesis using assms
    by (auto simp: shutdown_inv_def run_inv_def waiter_inv_def split: finished_pc.splits)
next
  case TrigStored
  then have "stopping (handle s)" using assms(2) by (metis shutdown_inv_def trigger_pc.distinct(1))
  then show ?thesis using assms TrigStored
    by (auto simp: shutdown_inv_def run_inv_def waiter_inv_def split: finished_pc.splits)
qed (use assms in simp)

lemma finished_keeps_inv:
  assumes "finished_step N (waiters s i) (handle s) = Some pc" "shutdown_inv N s" "notify_contract N"
  shows "shutdown_inv N (s\<lparr>waiters := (waiters s)(i := pc)\<rparr>)"
proof -
  have "waiter_inv N (handle s) (run_at s) (waiters s i)" "run_inv N (handle s) (run_at s)"
    using assms(2) by (auto simp: shutdown_inv_def)
  then have "waiter_inv N (handle s) (run_at s) pc"
    using assms(1,3)
    by (cases "waiters s i")
       (auto simp: waiter_inv_def run_inv_def not_woken_at_creation split: if_splits)
  then show ?thesis using assms(2) by (auto simp: shutdown_inv_def)
qed

lemma run_step_waiter_inv:
  assumes "run_step N mv pc h = Some (pc', h')" "run_inv N h pc" "waiter_inv N h pc wpc"
    "notify_contract N"
  shows "waiter_inv N h' pc' wpc"
  using assms
  by (cases "(N, mv, pc, h)" rule: run_step.cases)
     (auto simp: waiter_inv_def run_inv_def woken_by_notify split: finished_pc.splits if_splits)

lemma run_step_run_inv:
  assumes "run_step N mv pc h = Some (pc', h')" "run_inv N h pc" "notify_contract N"
  shows "run_inv N h' pc' \<and> (stopping h \<longrightarrow> stopping h')"
  using assms
  by (cases "(N, mv, pc, h)" rule: run_step.cases)
     (auto simp: run_inv_def not_woken_at_creation split: if_splits)

lemma run_keeps_inv:
  assumes "run_step N mv (run_at s) (handle s) = Some (pc, h)" "shutdown_inv N s" "notify_contract N"
  shows "shutdown_inv N (s\<lparr>run_at := pc, handle := h\<rparr>)"
  using assms run_step_run_inv[OF assms(1)] run_step_waiter_inv[OF assms(1)]
  by (simp add: shutdown_inv_def)

lemma reachable_inv:
  assumes "notify_contract N" "reachable N s"
  shows "shutdown_inv N s"
  using assms(2) unfolding reachable_def
proof (induction rule: rtranclp_induct)
  case base
  show ?case by (rule shutdown_inv_start)
next
  case (step s s')
  from step(2) show ?case
    by (cases rule: shutdown_stepE)
       (use step(3) assms(1) trigger_keeps_inv finished_keeps_inv run_keeps_inv in auto)
qed

lemma reachable_start: "reachable N (system_start N)"
  by (simp add: reachable_def)

lemma reachable_step: "reachable N s \<Longrightarrow> shutdown_step N s s' \<Longrightarrow> reachable N s'"
  unfolding reachable_def by simp

lemma run_moves_reachable:
  "run_moves N mvs s = Some s' \<Longrightarrow> reachable N s \<Longrightarrow> reachable N s'"
  by (induction mvs arbitrary: s) (auto split: option.splits intro: reachable_step shutdown_step.Run)

section \<open>Three runs\<close>

text \<open>A stop asked for between the loop's check and the \<open>select!\<close>.\<close>

definition early_trigger :: "('n, 'w) notify_ops \<Rightarrow> ('n, 'w) shutdown_system" where
  "early_trigger N =
     (system_start N)\<lparr>triggers := (\<lambda>_. TrigStart)(0 := TrigReturned),
        handle := (shutdown_new N)\<lparr>stopping := True, sd_notify := notify_waiters N (notify_new N)\<rparr>,
        run_at := RunSelect (notified N (notify_waiters N (notify_new N)))\<rparr>"

lemma early_trigger_reachable: "reachable N (early_trigger N)"
proof -
  let ?s1 = "(system_start N)\<lparr>run_at := RunConnect\<rparr>"
  let ?s2 = "?s1\<lparr>triggers := (\<lambda>_. TrigStart)(0 := TrigStored), handle := (shutdown_new N)\<lparr>stopping := True\<rparr>\<rparr>"
  let ?s3 = "?s2\<lparr>triggers := (\<lambda>_. TrigStart)(0 := TrigReturned),
        handle := (shutdown_new N)\<lparr>stopping := True, sd_notify := notify_waiters N (notify_new N)\<rparr>\<rparr>"
  have "reachable N ?s1"
    using run_moves_reachable[of N "[Proceeds, Proceeds]" "system_start N"] reachable_start[of N]
    by (simp add: system_start_def shutdown_new_def)
  moreover have "shutdown_step N ?s1 ?s2"
    using shutdown_step.Trigger[of N ?s1 0] by (simp add: system_start_def shutdown_new_def)
  moreover have "shutdown_step N ?s2 ?s3"
    using shutdown_step.Trigger[of N ?s2 0] by (simp add: system_start_def shutdown_new_def)
  moreover have "shutdown_step N ?s3 (early_trigger N)"
    using shutdown_step.Run[of N Proceeds ?s3]
    by (simp add: system_start_def shutdown_new_def early_trigger_def)
  ultimately show ?thesis by (blast intro: reachable_step)
qed

text \<open>The same, once the inbound stream has ended and the loop has returned.\<close>

definition stopped_system :: "('n, 'w) notify_ops \<Rightarrow> ('n, 'w) shutdown_system" where
  "stopped_system N =
     (early_trigger N)\<lparr>run_at := RunReturned,
        handle := (handle (early_trigger N))\<lparr>sd_finished := True,
          sd_done := notify_waiters N (notify_new N)\<rparr>\<rparr>"

lemma stopped_system_reachable: "reachable N (stopped_system N)"
  using run_moves_reachable[OF _ early_trigger_reachable, of N "StreamEnds # replicate 6 Proceeds"]
  by (simp add: stopped_system_def early_trigger_def shutdown_new_def numeral_eq_Suc)

lemma stopped_system_at [simp]:
  "run_at (stopped_system N) = RunReturned" "sd_finished (handle (stopped_system N))"
  by (simp_all add: stopped_system_def)

text \<open>A session in its \<open>select!\<close> with a \<open>trigger\<close> halfway.\<close>

definition open_session :: "('n, 'w) notify_ops \<Rightarrow> ('n, 'w) shutdown_system" where
  "open_session N =
     (system_start N)\<lparr>triggers := (\<lambda>_. TrigStart)(0 := TrigStored),
        handle := (shutdown_new N)\<lparr>stopping := True\<rparr>, run_at := RunSelect (notified N (notify_new N))\<rparr>"

lemma open_session_reachable: "reachable N (open_session N)"
proof -
  let ?s = "(system_start N)\<lparr>run_at := RunSelect (notified N (notify_new N))\<rparr>"
  have "reachable N ?s"
    using run_moves_reachable[of N "[Proceeds, Proceeds, Proceeds]" "system_start N"] reachable_start[of N]
    by (simp add: system_start_def shutdown_new_def)
  moreover have "shutdown_step N ?s (open_session N)"
    using shutdown_step.Trigger[of N ?s 0]
    by (simp add: system_start_def shutdown_new_def open_session_def)
  ultimately show ?thesis by (rule reachable_step)
qed

section \<open>What the callers can rely on\<close>

text \<open>
  C19. In every interleaving of any number of \<open>trigger\<close> and \<open>finished\<close> calls with the run loop:
  \<open>finished\<close> has returned to nobody unless the run loop has raised the flag, the flag is raised only
  after a stop was asked for and only once the loop has left its last session, and the session's
  \<open>notified()\<close> branch is taken only when \<open>stopping\<close> is already set, so it always leads into the
  shutdown flush.
\<close>

theorem stop_is_asked_for_and_complete:
  assumes "notify_contract N" "reachable N s"
  shows "(waiters s i = FinReturned \<longrightarrow> sd_finished (handle s))
    \<and> (sd_finished (handle s) \<longrightarrow> stopping (handle s) \<and> run_at s \<in> {RunNotify, RunReturned})
    \<and> (run_at s = RunSelect w \<longrightarrow> woken N w (sd_notify (handle s)) \<longrightarrow>
         run_moves N [Woken, Proceeds] s = Some (s\<lparr>run_at := RunFlush\<rparr>))"
proof -
  have "run_inv N (handle s) (run_at s)" "waiter_inv N (handle s) (run_at s) (waiters s i)"
    using reachable_inv[OF assms] by (auto simp: shutdown_inv_def)
  then show ?thesis
    by (auto simp: run_inv_def waiter_inv_def)
qed

theorem stop_is_asked_for_and_complete_witness:
  "let s = stopped_system counting_notify in
     notify_contract counting_notify \<and> reachable counting_notify s \<and> sd_finished (handle s)
     \<and> stopping (handle s)"
  using stop_is_asked_for_and_complete[OF counting_notify_contract stopped_system_reachable]
  by (simp add: Let_def counting_notify_contract stopped_system_reachable)


text \<open>
  C18. \<open>finished\<close> loses no wake-up: whenever the run loop has returned, every \<open>finished\<close> call,
  wherever it stood in between its two loads and its await when the flag went up, is back after at
  most four of its own steps.
\<close>

theorem finished_loses_no_wakeup:
  assumes "notify_contract N" "reachable N s" "run_at s = RunReturned"
  shows "waiter_steps N 4 (handle s) (waiters s i) = FinReturned"
proof -
  have "sd_finished (handle s)" "waiter_inv N (handle s) RunReturned (waiters s i)"
    using reachable_inv[OF assms(1,2)] assms(3) by (auto simp: shutdown_inv_def run_inv_def)
  then show ?thesis
    by (cases "waiters s i") (auto simp: waiter_inv_def numeral_eq_Suc)
qed

theorem finished_loses_no_wakeup_witness:
  "let s = stopped_system counting_notify in
     run_at s = RunReturned \<and> waiter_steps counting_notify 4 (handle s) (waiters s 0) = FinReturned"
  using finished_loses_no_wakeup[OF counting_notify_contract stopped_system_reachable, of 0]
  by (simp add: Let_def)


text \<open>
  C20. A \<open>trigger\<close> that comes while a session is in its \<open>select!\<close> stops the agent: its wake-up
  completes the \<open>notified()\<close> branch, and the run loop then passes the shutdown flush, finds the flag
  at the top of its loop, and returns with the completion flag raised.
\<close>

theorem trigger_stops_an_open_session:
  assumes "notify_contract N" "reachable N s" "run_at s = RunSelect w" "triggers s i = TrigStored"
  shows "\<exists>s'. trigger_step N TrigStored (handle s) = Some (TrigReturned, s')
    \<and> (\<exists>t. run_moves N (Woken # replicate 6 Proceeds)
          (s\<lparr>triggers := (triggers s)(i := TrigReturned), handle := s'\<rparr>) = Some t
        \<and> run_at t = RunReturned \<and> sd_finished (handle t))"
proof -
  have "run_inv N (handle s) (RunSelect w)" "stopping (handle s)"
    using reachable_inv[OF assms(1,2)] assms(3,4)
    by (simp add: shutdown_inv_def, metis shutdown_inv_def trigger_pc.distinct(1))
  then show ?thesis
    using assms(1,3) by (simp add: run_inv_def woken_by_notify numeral_eq_Suc)
qed

theorem trigger_stops_an_open_session_witness:
  "\<exists>s t. run_at (open_session counting_notify) = RunSelect 0
    \<and> trigger_step counting_notify TrigStored (handle (open_session counting_notify)) = Some (TrigReturned, s)
    \<and> run_moves counting_notify (Woken # replicate 6 Proceeds)
        ((open_session counting_notify)\<lparr>triggers := (triggers (open_session counting_notify))(0 := TrigReturned),
           handle := s\<rparr>) = Some t
    \<and> run_at t = RunReturned \<and> sd_finished (handle t)"
proof -
  have "run_at (open_session counting_notify) = RunSelect 0"
    "triggers (open_session counting_notify) 0 = TrigStored"
    by (simp_all add: open_session_def counting_notify_def)
  then show ?thesis
    using trigger_stops_an_open_session[OF counting_notify_contract open_session_reachable] by blast
qed


text \<open>
  A \<open>trigger\<close> that falls between the loop's check and the \<open>select!\<close> (while the token is
  refreshed or the Channel opened) is not seen by the session it precedes: the \<open>notified()\<close> future
  is created after the wake-up. The call has returned, the flag is set, and the run loop can take
  no step of its own except the end of the inbound stream.
\<close>

theorem early_trigger_is_missed:
  assumes "notify_contract N"
  shows "\<exists>s w. reachable N s \<and> triggers s 0 = TrigReturned \<and> stopping (handle s)
    \<and> run_at s = RunSelect w
    \<and> (\<forall>mv. mv \<noteq> StreamEnds \<longrightarrow> run_step N mv (run_at s) (handle s) = None)"
proof (intro exI conjI allI impI)
  show "reachable N (early_trigger N)" by (rule early_trigger_reachable)
  show "run_step N mv (run_at (early_trigger N)) (handle (early_trigger N)) = None"
    if "mv \<noteq> StreamEnds" for mv
    using assms that by (cases mv) (simp_all add: early_trigger_def not_woken_at_creation)
qed (simp_all add: early_trigger_def)

theorem early_trigger_is_missed_witness:
  "\<exists>s w. reachable counting_notify s \<and> triggers s 0 = TrigReturned \<and> stopping (handle s)
    \<and> run_at s = RunSelect w \<and> run_step counting_notify Woken (run_at s) (handle s) = None"
  using early_trigger_is_missed[OF counting_notify_contract] by (meson run_move.distinct)


text \<open>
  When \<open>run\<close> leaves with an error nobody raises the completion flag: a caller that is awaiting
  \<open>finished\<close> then waits forever, whatever any thread does afterwards.
\<close>

definition failed_run :: "'w \<Rightarrow> 'n \<Rightarrow> ('n, 'w) shutdown_system \<Rightarrow> bool" where
  "failed_run w n s \<longleftrightarrow>
     run_at s = RunFailed \<and> waiters s 0 = FinAwaiting w \<and> sd_done (handle s) = n
     \<and> \<not> sd_finished (handle s)"

lemma failed_run_forever:
  assumes "\<not> woken N w n" "failed_run w n s" "(shutdown_step N)\<^sup>*\<^sup>* s s'"
  shows "failed_run w n s'"
  using assms(3,2)
proof (induction rule: rtranclp_induct)
  case (step t u)
  from step.hyps(2) step.IH[OF step.prems] assms(1) show ?case
    by (cases rule: shutdown_stepE)
       (auto simp: failed_run_def elim!: trigger_stepE finished_awaitE run_failedE split: if_splits)
qed

theorem finished_waits_forever_after_an_error:
  assumes "notify_contract N"
  shows "\<exists>s. reachable N s \<and> run_at s = RunFailed
    \<and> (\<forall>s'. (shutdown_step N)\<^sup>*\<^sup>* s s' \<longrightarrow> waiters s' 0 \<noteq> FinReturned \<and> run_at s' = RunFailed)"
proof -
  let ?w = "notified N (notify_new N)"
  let ?at = "\<lambda>pc. (system_start N)\<lparr>waiters := (\<lambda>_. FinStart)(0 := pc)\<rparr>"
  have "shutdown_step N (system_start N) (?at FinLoaded)"
    using shutdown_step.Finished[of N "system_start N" 0]
    by (simp add: system_start_def shutdown_new_def)
  moreover have "shutdown_step N (?at FinLoaded) (?at (FinRegistered ?w))"
    using shutdown_step.Finished[of N "?at FinLoaded" 0]
    by (simp add: system_start_def shutdown_new_def)
  moreover have "shutdown_step N (?at (FinRegistered ?w)) (?at (FinAwaiting ?w))"
    using shutdown_step.Finished[of N "?at (FinRegistered ?w)" 0]
    by (simp add: system_start_def shutdown_new_def)
  moreover have "shutdown_step N (?at (FinAwaiting ?w)) ((?at (FinAwaiting ?w))\<lparr>run_at := RunFailed\<rparr>)"
    using shutdown_step.Run[of N Errs "?at (FinAwaiting ?w)"]
    by (simp add: system_start_def shutdown_new_def)
  ultimately have "reachable N ((?at (FinAwaiting ?w))\<lparr>run_at := RunFailed\<rparr>)"
    using reachable_start reachable_step by metis
  moreover have "failed_run ?w (notify_new N) ((?at (FinAwaiting ?w))\<lparr>run_at := RunFailed\<rparr>)"
    by (simp add: failed_run_def system_start_def shutdown_new_def)
  ultimately show ?thesis
    using failed_run_forever[OF not_woken_at_creation[OF assms]]
    by (metis failed_run_def finished_pc.distinct(19))
qed

theorem finished_waits_forever_after_an_error_witness:
  "\<exists>s. reachable counting_notify s \<and> run_at s = RunFailed \<and> waiters s 0 \<noteq> FinReturned"
  using finished_waits_forever_after_an_error[OF counting_notify_contract] by blast


end
