(* ===== verification/StopLink.thy ===== *)
theory StopLink
  imports RunLedger Shutdown
begin

text \<open>
  The stop flag of \<open>Shutdown\<close> and the run loop of \<open>Agent\<close> together. In \<open>Agent\<close> every load of
  \<open>stopping\<close> is a value of the environment; here the values are those the loop can see when any number
  of \<open>trigger\<close> calls interleave with it. The flag is never lowered, so a session that ends in a final
  flush is the last one: the next check leaves the loop.
\<close>

section \<open>The loads of the flag\<close>

text \<open>
  The executions of the threads with the values that \<open>run_loop\<close> (at its head) and \<open>run_session\<close> (past
  the aborts) have loaded, oldest first.
\<close>

inductive run_trace :: "('n, 'w) notify_ops \<Rightarrow> bool list \<Rightarrow> ('n, 'w) shutdown_system \<Rightarrow> bool" for N where
  Start: "run_trace N [] (system_start N)"
| Silent: "run_trace N loads s \<Longrightarrow> shutdown_step N s s' \<Longrightarrow> run_at s' = run_at s \<or> run_at s \<notin> {RunCheck, RunAborted}
    \<Longrightarrow> run_trace N loads s'"
| Load: "run_trace N loads s \<Longrightarrow> run_at s \<in> {RunCheck, RunAborted}
    \<Longrightarrow> run_step N Proceeds (run_at s) (handle s) = Some (pc, h)
    \<Longrightarrow> run_trace N (loads @ [stopping (handle s)]) (s\<lparr>run_at := pc, handle := h\<rparr>)"

text \<open>A flag that is never lowered.\<close>

abbreviation never_lowered :: "bool list \<Rightarrow> bool" where
  "never_lowered loads \<equiv> sorted_wrt (\<longrightarrow>) loads"

lemma run_step_stopping: "run_step N mv pc h = Some (pc', h') \<Longrightarrow> stopping h \<Longrightarrow> stopping h'"
  by (cases "(N, mv, pc, h)" rule: run_step.cases) (auto split: if_splits)

lemma shutdown_step_stopping: "shutdown_step N s s' \<Longrightarrow> stopping (handle s) \<Longrightarrow> stopping (handle s')"
  by (elim shutdown_stepE) (auto elim: trigger_stepE dest: run_step_stopping)

lemma run_trace_loads:
  assumes "run_trace N loads s"
  shows "reachable N s \<and> never_lowered loads \<and> (True \<in> set loads \<longrightarrow> stopping (handle s))"
  using assms
proof induction
  case Start
  show ?case by (simp add: reachable_start)
next
  case (Silent loads s s')
  then show ?case by (blast intro: reachable_step dest: shutdown_step_stopping)
next
  case (Load loads s pc h)
  then have "reachable N (s\<lparr>run_at := pc, handle := h\<rparr>)" by (blast intro: reachable_step shutdown_step.Run)
  with Load show ?case by (auto simp: sorted_wrt_append dest: run_step_stopping)
qed

section \<open>What the run loop loads\<close>

definition iteration_loads :: "'b world \<Rightarrow> 'b loop_env \<Rightarrow> backoff \<Rightarrow> 'b runner \<Rightarrow> bool list" where
  "iteration_loads W e bo r =
     le_stopping e #
     (if le_stopping e then []
      else case connect_state W e bo r of
             None \<Rightarrow> []
           | Some (bo1, r1) \<Rightarrow>
               (case run_session W (le_session e) r1 of
                  (res, Some t, _) \<Rightarrow> if res = SessionPanic then [] else [se_stopping (le_session e)]
                | (_, None, _) \<Rightarrow> []))"

fun loop_loads :: "'b world \<Rightarrow> 'b loop_env list \<Rightarrow> backoff \<Rightarrow> 'b runner \<Rightarrow> bool list" where
  "loop_loads W [] bo r = []"
| "loop_loads W (e # es) bo r =
     iteration_loads W e bo r @
     (case loop_iteration W e bo r of (LoopNext d, bo', r') \<Rightarrow> loop_loads W es bo' r' | _ \<Rightarrow> [])"

lemma final_flush_loads:
  assumes "t \<in> set (iteration_traffic W e bo r)" and "tr_final t \<noteq> None"
  shows "iteration_loads W e bo r = [False, True] \<and> iteration_traffic W e bo r = [t]"
proof -
  obtain bo1 r1 res r' where st: "\<not> le_stopping e" "connect_state W e bo r = Some (bo1, r1)"
    "run_session W (le_session e) r1 = (res, Some t, r')"
    using assms(1) by (rule iteration_traffic_session)
  obtain uid r2 where "session_body W (le_session e) uid r2 = (res, t, r')" using st(3) by (rule run_session_body)
  from session_final(1)[OF this] assms(2) have "res \<noteq> SessionPanic" "se_stopping (le_session e)"
    by (auto simp: final_metrics_def split: if_splits)
  with st show ?thesis by (simp add: iteration_loads_def iteration_traffic_def)
qed

lemma stopped_loop_opens_nothing:
  "set (loop_loads W es bo r) \<subseteq> {True} \<Longrightarrow> loop_traffic W es bo r = []"
  by (cases es) (auto simp: iteration_loads_def iteration_traffic_def loop_iteration_def)

lemma loads_one_final_flush:
  "never_lowered (loop_loads W es bo r) \<Longrightarrow> \<forall>t \<in> set (butlast (loop_traffic W es bo r)). tr_final t = None"
proof (induction es arbitrary: bo r)
  case (Cons e es)
  let ?now = "iteration_traffic W e bo r"
  obtain le bo' r' where it: "loop_iteration W e bo r = (le, bo', r')" by (cases "loop_iteration W e bo r")
  have short: "length ?now \<le> 1" by (simp add: iteration_traffic_def split: option.split prod.split)
  show ?case
  proof (cases "\<forall>t \<in> set ?now. tr_final t = None")
    case False
    then have fin: "iteration_loads W e bo r = [False, True]" "length ?now = 1" using final_flush_loads by fastforce+
    then have "set (loop_loads W es bo' r') \<subseteq> {True}" if "le = LoopNext d" for d
      using Cons.prems that by (auto simp: it sorted_wrt_append)
    then have "loop_traffic W (e # es) bo r = ?now"
      by (cases le) (simp_all add: it stopped_loop_opens_nothing)
    with fin(2) show ?thesis by (auto simp: length_Suc_conv)
  next
    case True
    have "\<forall>t \<in> set (butlast (loop_traffic W es bo' r')). tr_final t = None" if "le = LoopNext d" for d
      using Cons.IH[of bo' r'] Cons.prems that by (simp add: it sorted_wrt_append)
    with True show ?thesis
      by (cases le) (auto simp: it butlast_append dest: in_set_butlastD)
  qed
qed simp

section \<open>A run has at most one final flush\<close>

definition metrics_lost :: "session_traffic \<Rightarrow> drained list" where
  "metrics_lost t = option_list (Option.bind (final_metrics t) sm_lost)"

lemma metrics_lost_none: "tr_final t = None \<Longrightarrow> metrics_lost t = []"
  by (simp add: metrics_lost_def final_metrics_def)

text \<open>
  C17. Only the last session of a run is flushed and a run loses at most one metrics batch. Let any number
  of stop requests interleave with a run loop, and let the loads of the stop flag that the loop performs
  give what they give in that interleaving. Then no session but the last ends in a final flush, and over
  all sessions the final flushes lose at most one batch of calls.
\<close>

theorem run_flushes_once:
  assumes "run_trace N loads s"
    and "loads = loop_loads W es (backoff_new (backoff_initial (cfg r)) (backoff_max (cfg r)) True) r"
  shows "let ts = loop_traffic W es (backoff_new (backoff_initial (cfg r)) (backoff_max (cfg r)) True) r in
    (\<forall>t \<in> set (butlast ts). tr_final t = None) \<and> length (concat (map metrics_lost ts)) \<le> 1"
proof -
  let ?ts = "loop_traffic W es (backoff_new (backoff_initial (cfg r)) (backoff_max (cfg r)) True) r"
  have last: "\<forall>t \<in> set (butlast ?ts). tr_final t = None"
    using loads_one_final_flush run_trace_loads[OF assms(1)] assms(2) by blast
  then have "concat (map metrics_lost (butlast ?ts)) = []" by (simp add: metrics_lost_none)
  then have "concat (map metrics_lost ?ts) = (if ?ts = [] then [] else metrics_lost (last ?ts))"
    by (cases ?ts rule: rev_cases) simp_all
  then have "length (concat (map metrics_lost ?ts)) \<le> 1"
    using length_option_list[of "Option.bind (final_metrics (last ?ts)) sm_lost"] by (simp add: metrics_lost_def)
  with last show ?thesis by (simp add: Let_def)
qed

text \<open>
  A stop asked for while the first session is open: the loop loads the flag lowered, then raised past
  the session, then raised again at its head.
\<close>

definition raised :: "(nat, nat) shutdown_system \<Rightarrow> (nat, nat) shutdown_system" where
  "raised s = s\<lparr>triggers := (triggers s)(0 := TrigStored), handle := (handle s)\<lparr>stopping := True\<rparr>\<rparr>"

abbreviation at_pc :: "(nat, nat) shutdown_system \<Rightarrow> nat run_pc \<Rightarrow> (nat, nat) shutdown_system" where
  "at_pc s pc \<equiv> s\<lparr>run_at := pc\<rparr>"

lemma demo_run_trace: "\<exists>s. run_trace counting_notify [False, True, True] s"
proof -
  let ?N = counting_notify and ?s0 = "system_start counting_notify :: (nat, nat) shutdown_system"
  have silent: "run_trace ?N loads (at_pc s pc)"
    if "run_trace ?N loads s" "run_step ?N mv (run_at s) (handle s) = Some (pc, handle s)" "run_at s \<notin> {RunCheck, RunAborted}"
    for loads mv s pc
    using Silent[OF that(1) shutdown_step.Run[OF that(2)]] that(3) by simp
  have load: "run_trace ?N (loads @ [stopping (handle s)]) (at_pc s pc)"
    if "run_trace ?N loads s" "run_step ?N Proceeds (run_at s) (handle s) = Some (pc, handle s)" "run_at s \<in> {RunCheck, RunAborted}"
    for loads s pc
    using Load[OF that(1,3,2)] by simp
  have h: "stopping (handle ?s0) = False" "run_at ?s0 = RunStart" "triggers ?s0 0 = TrigStart"
    by (simp_all add: system_start_def shutdown_new_def)
  have t1: "run_trace ?N [] (at_pc ?s0 RunCheck)" using silent[OF Start, of Proceeds] h by simp
  have t2: "run_trace ?N [False] (at_pc ?s0 RunConnect)" using load[OF t1] h by simp
  have t3: "run_trace ?N [False] (at_pc ?s0 (RunSelect (notified ?N (sd_notify (handle ?s0)))))"
    using silent[OF t2, of Proceeds] h by simp
  let ?s3 = "at_pc ?s0 (RunSelect (notified ?N (sd_notify (handle ?s0))))"
  have "run_trace ?N [False] (raised ?s3)"
    using Silent[OF t3 shutdown_step.Trigger[of ?N ?s3 0]] h by (simp add: raised_def)
  then have "run_trace ?N [False] (at_pc (raised ?s3) RunAborted)"
    using silent[of "[False]" "raised ?s3" StreamEnds] by (simp add: raised_def)
  then have "run_trace ?N [False, True] (at_pc (raised ?s3) RunFlush)"
    using load[of "[False]" "at_pc (raised ?s3) RunAborted"] by (simp add: raised_def)
  then have "run_trace ?N [False, True] (at_pc (raised ?s3) RunAfter)"
    using silent[of "[False, True]" "at_pc (raised ?s3) RunFlush" Proceeds] by (simp add: raised_def)
  then have "run_trace ?N [False, True] (at_pc (raised ?s3) RunCheck)"
    using silent[of "[False, True]" "at_pc (raised ?s3) RunAfter" Proceeds] by (simp add: raised_def)
  then have "run_trace ?N [False, True, True] (at_pc (raised ?s3) RunFinish)"
    using load[of "[False, True]" "at_pc (raised ?s3) RunCheck"] by (simp add: raised_def)
  then show ?thesis by blast
qed

definition demo_stop_env :: "bytes loop_env" where
  "demo_stop_env = demo_loop_env\<lparr>le_stopping := True\<rparr>"

definition demo_unenrolled :: "bytes runner" where
  "demo_unenrolled = demo_runner\<lparr>cfg := demo_cfg\<lparr>enrollment_url := ''x''\<rparr>\<rparr>"

lemma demo_loads:
  "loop_loads demo_world [demo_loop_env, demo_stop_env]
     (backoff_new (backoff_initial (cfg demo_unenrolled)) (backoff_max (cfg demo_unenrolled)) True) demo_unenrolled
   = [False, True, True]"
proof -
  let ?bo = "backoff_new (backoff_initial (cfg demo_unenrolled)) (backoff_max (cfg demo_unenrolled)) True"
  obtain res t r' where run: "run_session demo_world (demo_session []) demo_unenrolled = (res, Some t, r')"
    using demo_run_session[of demo_unenrolled "[]"] by (auto simp: demo_unenrolled_def)
  then have res: "res = SessionOk" by (rule empty_stream_ends_cleanly) (simp add: demo_session_def)
  have url: "\<exists>err. extract_token (enrollment_url (cfg demo_unenrolled)) = Inl err"
    by (simp add: extract_token_def demo_unenrolled_def)
  have env: "\<not> le_stopping demo_loop_env" "le_session demo_loop_env = demo_session []"
    "se_stopping (demo_session [])" "le_stopping demo_stop_env"
    by (simp_all add: demo_loop_env_def demo_stop_env_def demo_session_def)
  have "connect_state demo_world demo_loop_env ?bo demo_unenrolled = Some (?bo, demo_unenrolled)"
    using url by (auto simp: connect_state_def refresh_token_def)
  then show ?thesis
    using url run res
    by (auto simp: iteration_loads_def loop_iteration_def refresh_token_def after_session_def env)
qed

theorem run_flushes_once_witness:
  "let ts = loop_traffic demo_world [demo_loop_env, demo_stop_env]
         (backoff_new (backoff_initial (cfg demo_unenrolled)) (backoff_max (cfg demo_unenrolled)) True) demo_unenrolled in
     (\<exists>s. run_trace counting_notify [False, True, True] s)
     \<and> (\<forall>t \<in> set (butlast ts). tr_final t = None) \<and> length (concat (map metrics_lost ts)) \<le> 1"
proof -
  obtain s where "run_trace counting_notify [False, True, True] s" using demo_run_trace by blast
  from run_flushes_once[OF this demo_loads[symmetric]] demo_run_trace show ?thesis by (simp add: Let_def)
qed

end
