(* ===== verification/Config.thy ===== *)
theory Config
  imports Json
begin

text \<open>
  \<open>src/config.rs\<close>: the plugin configuration, its defaults and its serde form, over trees of
  JSON shape. \<open>humantime::parse_duration\<close> is a parameter. Paths stay the strings they are
  written as.
\<close>

section \<open>Data and defaults\<close>

datatype enrollment_source = Env string | File string | Inline string

record backoff_config =
  bc_initial :: duration
  bc_max :: duration
  bc_jitter :: bool

record control_plane_client_config =
  cc_endpoint :: string
  cc_enrollment :: enrollment_source
  cc_state_dir :: string
  cc_heartbeat :: duration
  cc_backoff :: backoff_config

definition default_state_dir :: string where "default_state_dir = ''/var/lib/mcpg/cp-client''"
definition default_heartbeat :: duration where "default_heartbeat = from_secs 30"
definition default_backoff_initial :: duration where "default_backoff_initial = from_secs 1"
definition default_backoff_max :: duration where "default_backoff_max = from_secs 60"
definition default_backoff_jitter :: bool where "default_backoff_jitter = True"

definition backoff_config_default :: backoff_config where
  "backoff_config_default =
     \<lparr>bc_initial = default_backoff_initial, bc_max = default_backoff_max, bc_jitter = default_backoff_jitter\<rparr>"

section \<open>Serialization\<close>

definition humantime_serialize :: "duration \<Rightarrow> json" where
  "humantime_serialize d = JStr (show_nat (as_secs d) @ ''s'')"

definition humantime_deserialize :: "(string \<Rightarrow> duration option) \<Rightarrow> json \<Rightarrow> duration option" where
  "humantime_deserialize parse_duration v = Option.bind (de_string v) parse_duration"

fun enrollment_to_json :: "enrollment_source \<Rightarrow> json" where
  "enrollment_to_json (Env n) = JObj [(''kind'', JStr ''env''), (''name'', JStr n)]"
| "enrollment_to_json (File p) = JObj [(''kind'', JStr ''file''), (''path'', JStr p)]"
| "enrollment_to_json (Inline u) = JObj [(''kind'', JStr ''inline''), (''url'', JStr u)]"

definition enrollment_variant :: "string \<Rightarrow> json \<Rightarrow> enrollment_source option" where
  "enrollment_variant tag v =
     (if tag = ''env'' then
        Option.bind (struct_fields [''name''] v) (\<lambda>m. map_option Env (required de_string m ''name''))
      else if tag = ''file'' then
        Option.bind (struct_fields [''path''] v) (\<lambda>m. map_option File (required de_string m ''path''))
      else if tag = ''inline'' then
        Option.bind (struct_fields [''url''] v) (\<lambda>m. map_option Inline (required de_string m ''url''))
      else None)"

fun enrollment_of_json :: "json \<Rightarrow> enrollment_source option" where
  "enrollment_of_json (JObj kvs) =
     (case filter (\<lambda>(k, _). k = ''kind'') kvs of
        [(_, JStr tag)] \<Rightarrow> enrollment_variant tag (JObj (filter (\<lambda>(k, _). k \<noteq> ''kind'') kvs))
      | _ \<Rightarrow> None)"
| "enrollment_of_json (JArr (JStr tag # rest)) = enrollment_variant tag (JArr rest)"
| "enrollment_of_json _ = None"

definition backoff_config_to_json :: "backoff_config \<Rightarrow> json" where
  "backoff_config_to_json b =
     JObj [(''initial'', humantime_serialize (bc_initial b)), (''max'', humantime_serialize (bc_max b)),
           (''jitter'', JBool (bc_jitter b))]"

definition backoff_config_of_json :: "(string \<Rightarrow> duration option) \<Rightarrow> json \<Rightarrow> backoff_config option" where
  "backoff_config_of_json pd v =
     Option.bind (struct_fields [''initial'', ''max'', ''jitter''] v) (\<lambda>m.
     Option.bind (defaulted default_backoff_initial (humantime_deserialize pd) m ''initial'') (\<lambda>i.
     Option.bind (defaulted default_backoff_max (humantime_deserialize pd) m ''max'') (\<lambda>mx.
     Option.bind (defaulted default_backoff_jitter de_bool m ''jitter'') (\<lambda>j.
     Some \<lparr>bc_initial = i, bc_max = mx, bc_jitter = j\<rparr>))))"

definition config_to_json :: "control_plane_client_config \<Rightarrow> json" where
  "config_to_json c =
     JObj [(''endpoint'', JStr (cc_endpoint c)), (''enrollment'', enrollment_to_json (cc_enrollment c)),
           (''state_dir'', JStr (cc_state_dir c)), (''heartbeat'', humantime_serialize (cc_heartbeat c)),
           (''backoff'', backoff_config_to_json (cc_backoff c))]"

definition config_of_json :: "(string \<Rightarrow> duration option) \<Rightarrow> json \<Rightarrow> control_plane_client_config option" where
  "config_of_json pd v =
     Option.bind (struct_fields [''endpoint'', ''enrollment'', ''state_dir'', ''heartbeat'', ''backoff''] v) (\<lambda>m.
     Option.bind (required de_string m ''endpoint'') (\<lambda>e.
     Option.bind (required enrollment_of_json m ''enrollment'') (\<lambda>en.
     Option.bind (defaulted default_state_dir de_string m ''state_dir'') (\<lambda>d.
     Option.bind (defaulted default_heartbeat (humantime_deserialize pd) m ''heartbeat'') (\<lambda>h.
     Option.bind (defaulted backoff_config_default (backoff_config_of_json pd) m ''backoff'') (\<lambda>b.
     Some \<lparr>cc_endpoint = e, cc_enrollment = en, cc_state_dir = d, cc_heartbeat = h, cc_backoff = b\<rparr>))))))"

section \<open>Round trips\<close>

text \<open>Documented of \<open>humantime\<close>: digits followed by \<open>s\<close> are that many seconds.\<close>

definition reads_seconds :: "(string \<Rightarrow> duration option) \<Rightarrow> bool" where
  "reads_seconds pd \<longleftrightarrow> (\<forall>n < 2 ^ 64. pd (show_nat n @ ''s'') = Some (from_secs n))"

definition whole_seconds :: "duration \<Rightarrow> duration" where
  "whole_seconds d = from_secs (as_secs d)"

lemma duration_secs_bound: "d \<le> duration_max \<Longrightarrow> as_secs d < 2 ^ 64"
  by (simp add: duration_max_def as_secs_def)

lemma humantime_roundtrip:
  "reads_seconds pd \<Longrightarrow> d \<le> duration_max \<Longrightarrow>
     humantime_deserialize pd (humantime_serialize d) = Some (whole_seconds d)"
  using duration_secs_bound[of d]
  by (simp add: humantime_deserialize_def humantime_serialize_def reads_seconds_def whole_seconds_def)

lemma whole_seconds_fixed: "whole_seconds d = d \<longleftrightarrow> d mod 1000000000 = 0"
proof -
  have "d div n * n = d \<longleftrightarrow> d mod n = 0" for n
    using div_mult_mod_eq[of d n] by linarith
  then show ?thesis by (simp add: whole_seconds_def from_secs_def as_secs_def)
qed

lemma enrollment_roundtrip: "enrollment_of_json (enrollment_to_json e) = Some e"
  by (cases e) (simp_all add: enrollment_variant_def struct_fields_obj required_def)

lemma backoff_config_roundtrip:
  assumes "reads_seconds pd" and "bc_initial b \<le> duration_max" and "bc_max b \<le> duration_max"
  shows "backoff_config_of_json pd (backoff_config_to_json b)
    = Some (b\<lparr>bc_initial := whole_seconds (bc_initial b), bc_max := whole_seconds (bc_max b)\<rparr>)"
  using assms
  by (simp add: backoff_config_of_json_def backoff_config_to_json_def struct_fields_obj de_field_simps
      humantime_roundtrip)

section \<open>Properties\<close>

text \<open>
  C40. Writing a configuration and reading it back gives the same configuration with each duration
  cut down to whole seconds: everything else survives, for every enrollment source. So the round
  trip is the identity exactly on configurations with whole-second durations.
\<close>

theorem config_roundtrip_truncates:
  assumes "reads_seconds pd" and "cc_heartbeat c \<le> duration_max"
    and "bc_initial (cc_backoff c) \<le> duration_max" and "bc_max (cc_backoff c) \<le> duration_max"
  shows "config_of_json pd (config_to_json c)
           = Some (c\<lparr>cc_heartbeat := whole_seconds (cc_heartbeat c),
                    cc_backoff := (cc_backoff c)\<lparr>bc_initial := whole_seconds (bc_initial (cc_backoff c)),
                                                 bc_max := whole_seconds (bc_max (cc_backoff c))\<rparr>\<rparr>)
       \<and> (config_of_json pd (config_to_json c) = Some c
           \<longleftrightarrow> cc_heartbeat c mod 1000000000 = 0 \<and> bc_initial (cc_backoff c) mod 1000000000 = 0
             \<and> bc_max (cc_backoff c) mod 1000000000 = 0)"
proof -
  have roundtrip: "config_of_json pd (config_to_json c)
           = Some (c\<lparr>cc_heartbeat := whole_seconds (cc_heartbeat c),
                    cc_backoff := (cc_backoff c)\<lparr>bc_initial := whole_seconds (bc_initial (cc_backoff c)),
                                                 bc_max := whole_seconds (bc_max (cc_backoff c))\<rparr>\<rparr>)"
    using assms
    by (simp add: config_of_json_def config_to_json_def struct_fields_obj de_field_simps enrollment_roundtrip
        humantime_roundtrip backoff_config_roundtrip)
  have same: "c\<lparr>cc_heartbeat := h, cc_backoff := (cc_backoff c)\<lparr>bc_initial := i, bc_max := m\<rparr>\<rparr> = c
      \<longleftrightarrow> h = cc_heartbeat c \<and> i = bc_initial (cc_backoff c) \<and> m = bc_max (cc_backoff c)" for h i m
    by (cases c; cases "cc_backoff c") auto
  show ?thesis unfolding roundtrip option.inject same whole_seconds_fixed by simp
qed

definition demo_humantime :: "string \<Rightarrow> duration option" where
  "demo_humantime s = (if s = [] then None else map_option from_secs (parse_u64 (butlast s)))"

lemma demo_humantime_reads: "reads_seconds demo_humantime"
  by (simp add: reads_seconds_def demo_humantime_def parse_u64_show_nat butlast_append)

definition demo_config :: control_plane_client_config where
  "demo_config =
     \<lparr>cc_endpoint = ''https://cp'', cc_enrollment = File ''/run/enrol'', cc_state_dir = ''/s'',
      cc_heartbeat = from_millis 1500, cc_backoff = backoff_config_default\<rparr>"

theorem config_roundtrip_truncates_witness:
  "config_of_json demo_humantime (config_to_json demo_config)
     = Some (demo_config\<lparr>cc_heartbeat := from_secs 1\<rparr>)"
  using config_roundtrip_truncates[OF demo_humantime_reads, of demo_config]
  by (simp add: demo_config_def backoff_config_default_def default_backoff_initial_def default_backoff_max_def
      from_millis_def from_secs_def duration_max_def whole_seconds_def as_secs_def)

text \<open>
  A configuration that only says where the control plane is and how to enrol is complete: state
  directory, heartbeat and backoff take their documented defaults, a backoff section that is present
  defaults member by member, and members the schema does not know change nothing. Without the
  endpoint or the enrollment source there is no configuration.
\<close>

theorem config_defaults:
  "config_of_json pd (JObj [(''endpoint'', JStr e), (''enrollment'', enrollment_to_json src)])
     = Some \<lparr>cc_endpoint = e, cc_enrollment = src, cc_state_dir = ''/var/lib/mcpg/cp-client'',
             cc_heartbeat = from_secs 30,
             cc_backoff = \<lparr>bc_initial = from_secs 1, bc_max = from_secs 60, bc_jitter = True\<rparr>\<rparr>
   \<and> config_of_json pd (JObj [(''endpoint'', JStr e), (''enrollment'', enrollment_to_json src),
                               (''backoff'', JObj [(''jitter'', JBool False)]), (''comment'', v)])
     = Some \<lparr>cc_endpoint = e, cc_enrollment = src, cc_state_dir = ''/var/lib/mcpg/cp-client'',
             cc_heartbeat = from_secs 30,
             cc_backoff = \<lparr>bc_initial = from_secs 1, bc_max = from_secs 60, bc_jitter = False\<rparr>\<rparr>
   \<and> config_of_json pd (JObj [(''enrollment'', enrollment_to_json src)]) = None
   \<and> config_of_json pd (JObj [(''endpoint'', JStr e)]) = None"
  by (simp add: config_of_json_def backoff_config_of_json_def struct_fields_def de_field_simps
      enrollment_roundtrip default_state_dir_def default_heartbeat_def backoff_config_default_def
      default_backoff_initial_def default_backoff_max_def default_backoff_jitter_def)

end
