(* ===== verification/MetricsLocks.thy ===== *)
theory MetricsLocks
  imports Metrics "HOL-Library.Multiset"
begin

text \<open>
  The metrics buffer at the granularity of its locks. \<open>MetricsBuffer\<close> is shared by every dispatch
  path of the gateway and by the flush tasks of all sessions; \<open>record\<close>, \<open>drain\<close> and \<open>requeue_front\<close>
  hold the ring's mutex for their whole body (the drop counters and the sequence number are only touched
  under it), while \<open>record_events\<close> takes the mutex of the rollup alone and so may run in the middle of
  the other three, and so may the flush loop when it takes the early-flush permit. Here any number of
  threads interleave at these points. Every execution is shown to be one of the atomic operations that
  the other theories compose, in the order of one point of each call, with the same results.
\<close>

section \<open>The sections of each operation\<close>

text \<open>\<open>record\<close>: the wake-up, then the ring and the counters.\<close>

definition record_notify :: "metrics_buffer \<Rightarrow> metrics_buffer" where
  "record_notify b = (if length (samples (buf b)) + 1 \<ge> flush_early_at b then b\<lparr>flush_early := True\<rparr> else b)"

definition record_ring :: "tool_call_sample \<Rightarrow> metrics_buffer \<Rightarrow> metrics_buffer" where
  "record_ring s b =
     (if length (samples (buf b)) \<ge> cap b
      then if \<not> is_billable (outcome s) then count_drop (outcome s) b
           else (case ring_remove (victim (buf b)) (buf b) of
                   (Some dropped, r) \<Rightarrow> count_drop (outcome dropped) (b\<lparr>buf := ring_push_back s r\<rparr>)
                 | (None, r) \<Rightarrow> b\<lparr>buf := ring_push_back s r\<rparr>)
      else b\<lparr>buf := ring_push_back s (buf b)\<rparr>)"

text \<open>\<open>drain\<close>: the samples, then the rollup, then the clock, the counters and the sequence number.\<close>

definition drain_ring :: "metrics_buffer \<Rightarrow> tool_call_sample list \<times> metrics_buffer" where
  "drain_ring b =
     (let n = min (length (samples (buf b))) (batch_cap b);
          taken = take n (samples (buf b))
      in (taken, b\<lparr>buf := \<lparr>samples = drop n (samples (buf b)),
                           non_billable = non_billable (buf b) - cnt (\<lambda>s. \<not> is_billable (outcome s)) taken\<rparr>\<rparr>))"

definition drain_events :: "metrics_buffer \<Rightarrow> events_rollup \<times> metrics_buffer" where
  "drain_events b = (events b, b\<lparr>events := events_rollup_default\<rparr>)"

definition drain_counters :: "datetime \<Rightarrow> tool_call_sample list \<Rightarrow> events_rollup \<Rightarrow> metrics_buffer \<Rightarrow> drained \<times> metrics_buffer" where
  "drain_counters now taken rollup b =
     (let start = (case since rollup of None \<Rightarrow> now | Some t \<Rightarrow> t)
      in (\<lparr>batch_samples = taken, batch_dropped_overflow = dropped_overflow b,
           batch_dropped_non_billable = dropped_non_billable b, batch_seq = seq b + 1,
           batch_events = map (usage_of start now) (counts rollup)\<rparr>,
          b\<lparr>dropped_overflow := 0, dropped_non_billable := 0, seq := seq b + 1\<rparr>))"

text \<open>\<open>requeue_front\<close>: the ring and the counters, then the rollup.\<close>

definition requeue_ring :: "drained \<Rightarrow> metrics_buffer \<Rightarrow> metrics_buffer" where
  "requeue_ring batch b =
     (let b1 = requeue_samples (rev (batch_samples batch)) b
      in b1\<lparr>dropped_overflow := dropped_overflow b1 + batch_dropped_overflow batch,
            dropped_non_billable := dropped_non_billable b1 + batch_dropped_non_billable batch\<rparr>)"

definition requeue_events :: "drained \<Rightarrow> metrics_buffer \<Rightarrow> metrics_buffer" where
  "requeue_events batch b = b\<lparr>events := fold requeue_usage (batch_events batch) (events b)\<rparr>"

section \<open>Threads\<close>

datatype buffer_call =
    CallRecord tool_call_sample
  | CallRecordEvents datetime string string event_counts
  | CallDrain datetime
  | CallRequeue drained

text \<open>
  Where a thread stands: in no call yet, in a call and waiting for its first lock, between two sections
  of a call with the ring locked, or back with the result.
\<close>

datatype call_pc =
    AtRest
  | Entered buffer_call
  | RecordLocked tool_call_sample
  | RecordNotified tool_call_sample
  | DrainLocked datetime
  | DrainTaken datetime "tool_call_sample list"
  | DrainRolled datetime "tool_call_sample list" events_rollup
  | RequeueLocked drained
  | RequeueFilled drained
  | Returned "drained option"

record locked_buffer =
  shared :: metrics_buffer
  ring_lock :: "nat option"
  thread_at :: "nat \<Rightarrow> call_pc"

fun locked_pc :: "buffer_call \<Rightarrow> call_pc" where
  "locked_pc (CallRecord s) = RecordLocked s"
| "locked_pc (CallDrain now) = DrainLocked now"
| "locked_pc (CallRequeue d) = RequeueLocked d"
| "locked_pc (CallRecordEvents now n m c) = Entered (CallRecordEvents now n m c)"

definition move_to :: "nat \<Rightarrow> call_pc \<Rightarrow> locked_buffer \<Rightarrow> locked_buffer" where
  "move_to i pc st = st\<lparr>thread_at := (thread_at st)(i := pc)\<rparr>"

text \<open>
  The next section of thread \<open>i\<close>; \<open>None\<close> when it is in no call, or waits for a ring that another
  thread has locked.
\<close>

definition thread_step :: "nat \<Rightarrow> locked_buffer \<Rightarrow> locked_buffer option" where
  "thread_step i st =
     (case thread_at st i of
        Entered (CallRecordEvents now n m c) \<Rightarrow>
          Some (move_to i (Returned None) (st\<lparr>shared := record_events now n m c (shared st)\<rparr>))
      | Entered call \<Rightarrow>
          (if ring_lock st = None then Some (move_to i (locked_pc call) (st\<lparr>ring_lock := Some i\<rparr>)) else None)
      | RecordLocked s \<Rightarrow> Some (move_to i (RecordNotified s) (st\<lparr>shared := record_notify (shared st)\<rparr>))
      | RecordNotified s \<Rightarrow>
          Some (move_to i (Returned None) (st\<lparr>shared := record_ring s (shared st), ring_lock := None\<rparr>))
      | DrainLocked now \<Rightarrow>
          (case drain_ring (shared st) of (taken, b) \<Rightarrow> Some (move_to i (DrainTaken now taken) (st\<lparr>shared := b\<rparr>)))
      | DrainTaken now taken \<Rightarrow>
          (case drain_events (shared st) of (rollup, b) \<Rightarrow>
             Some (move_to i (DrainRolled now taken rollup) (st\<lparr>shared := b\<rparr>)))
      | DrainRolled now taken rollup \<Rightarrow>
          (case drain_counters now taken rollup (shared st) of (d, b) \<Rightarrow>
             Some (move_to i (Returned (Some d)) (st\<lparr>shared := b, ring_lock := None\<rparr>)))
      | RequeueLocked d \<Rightarrow> Some (move_to i (RequeueFilled d) (st\<lparr>shared := requeue_ring d (shared st)\<rparr>))
      | RequeueFilled d \<Rightarrow>
          Some (move_to i (Returned None) (st\<lparr>shared := requeue_events d (shared st), ring_lock := None\<rparr>))
      | _ \<Rightarrow> None)"

section \<open>Atomic operations and their histories\<close>

datatype atomic_op = Op buffer_op | TakePermit

fun atomic_step :: "atomic_op \<Rightarrow> metrics_buffer \<Rightarrow> metrics_buffer" where
  "atomic_step (Op op) b = buffer_step op b"
| "atomic_step TakePermit b = b\<lparr>flush_early := False\<rparr>"

fun atomic_result :: "atomic_op \<Rightarrow> metrics_buffer \<Rightarrow> drained option" where
  "atomic_result (Op (Drain now)) b = Some (fst (drain now b))"
| "atomic_result _ b = None"

fun replay :: "atomic_op list \<Rightarrow> metrics_buffer \<Rightarrow> drained option list \<times> metrics_buffer" where
  "replay [] b = ([], b)"
| "replay (op # ops) b = (case replay ops (atomic_step op b) of (rs, b') \<Rightarrow> (atomic_result op b # rs, b'))"

text \<open>
  The point at which a call takes effect: for \<open>record\<close> its wake-up, for the other three their section
  on the rollup. An execution keeps the operations that took effect, oldest first, with the thread and
  with what the thread returns, as far as it is known then.
\<close>

fun takes_effect :: "call_pc \<Rightarrow> metrics_buffer \<Rightarrow> (atomic_op \<times> drained option) option" where
  "takes_effect (Entered (CallRecordEvents now n m c)) b = Some (Op (Produce (RecordEvents now n m c)), None)"
| "takes_effect (RecordLocked s) b = Some (Op (Produce (RecordCall s)), None)"
| "takes_effect (DrainTaken now taken) b = Some (Op (Drain now), Some (fst (drain_counters now taken (events b) b)))"
| "takes_effect (RequeueFilled d) b = Some (Op (Requeue d), None)"
| "takes_effect _ b = None"

type_synonym history = "(nat option \<times> atomic_op \<times> drained option) list"

definition threads_start :: "metrics_buffer \<Rightarrow> locked_buffer" where
  "threads_start b = \<lparr>shared = b, ring_lock = None, thread_at = (\<lambda>_. AtRest)\<rparr>"

inductive lock_run :: "metrics_buffer \<Rightarrow> history \<Rightarrow> locked_buffer \<Rightarrow> bool" for b where
  Start: "lock_run b [] (threads_start b)"
| Call: "lock_run b h st \<Longrightarrow> thread_at st i = AtRest \<or> (\<exists>d. thread_at st i = Returned d)
    \<Longrightarrow> lock_run b h (move_to i (Entered call) st)"
| Thread: "lock_run b h st \<Longrightarrow> thread_step i st = Some st'
    \<Longrightarrow> lock_run b (h @ map (Pair (Some i)) (option_list (takes_effect (thread_at st i) (shared st)))) st'"
| Permit: "lock_run b h st
    \<Longrightarrow> lock_run b (h @ [(None, TakePermit, None)]) (st\<lparr>shared := (shared st)\<lparr>flush_early := False\<rparr>\<rparr>)"

section \<open>Sections make up the operations\<close>

lemma record_sections: "record_sample s b = record_ring s (record_notify b)"
  by (simp add: record_sample_def record_ring_def record_notify_def Let_def)

lemma drain_sections:
  "drain now b = (case drain_ring b of (taken, b1) \<Rightarrow>
     case drain_events b1 of (rollup, b2) \<Rightarrow> drain_counters now taken rollup b2)"
  by (simp add: drain_def drain_ring_def drain_events_def drain_counters_def Let_def)

lemma requeue_sections: "requeue_front d b = requeue_events d (requeue_ring d b)"
  by (simp add: requeue_front_def requeue_ring_def requeue_events_def Let_def)

text \<open>
  What may run in the middle of another operation writes only the rollup and the permit, and no section
  on the ring reads or writes those.
\<close>

definition aside :: "(events_rollup \<Rightarrow> events_rollup) \<Rightarrow> (bool \<Rightarrow> bool) \<Rightarrow> metrics_buffer \<Rightarrow> metrics_buffer" where
  "aside f g b = b\<lparr>events := f (events b), flush_early := g (flush_early b)\<rparr>"

lemma record_events_aside: "\<exists>f. \<forall>b. record_events now n m c b = aside f id b"
  by (cases "c = event_counts_default")
     (rule exI[of _ id], simp add: record_events_def aside_def,
      rule exI[of _ "\<lambda>ev. \<lparr>since = (case since ev of None \<Rightarrow> Some now | Some t \<Rightarrow> Some t), counts = entry_add (n, m) c (counts ev)\<rparr>"],
      simp add: record_events_def aside_def)

lemma permit_aside: "b\<lparr>flush_early := False\<rparr> = aside id (\<lambda>_. False) b"
  by (simp add: aside_def)

lemma aside_sel [simp]:
  "buf (aside f g b) = buf b" "cap (aside f g b) = cap b" "batch_cap (aside f g b) = batch_cap b"
  "dropped_overflow (aside f g b) = dropped_overflow b" "dropped_non_billable (aside f g b) = dropped_non_billable b"
  "seq (aside f g b) = seq b"
  by (simp_all add: aside_def)

lemma count_drop_aside: "count_drop oc (aside f g b) = aside f g (count_drop oc b)"
  by (simp add: count_drop_def aside_def)

lemma record_ring_aside: "record_ring s (aside f g b) = aside f g (record_ring s b)"
  by (auto simp: record_ring_def count_drop_aside split: option.split prod.split)
     (auto simp: aside_def count_drop_def)

lemma drain_ring_aside: "drain_ring (aside f g b) = (fst (drain_ring b), aside f g (snd (drain_ring b)))"
  by (simp add: drain_ring_def Let_def) (simp add: aside_def)

lemma drain_counters_aside:
  "drain_counters now taken rollup (aside f g b)
     = (fst (drain_counters now taken rollup b), aside f g (snd (drain_counters now taken rollup b)))"
  by (simp add: drain_counters_def Let_def) (simp add: aside_def)

lemma requeue_samples_aside: "requeue_samples ss (aside f g b) = aside f g (requeue_samples ss b)"
proof (induction ss arbitrary: b)
  case (Cons s ss)
  have "(aside f g b)\<lparr>buf := r\<rparr> = aside f g (b\<lparr>buf := r\<rparr>)" for r by (simp add: aside_def)
  with Cons show ?case by (simp add: count_drop_aside)
qed simp

lemma requeue_ring_aside: "requeue_ring d (aside f g b) = aside f g (requeue_ring d b)"
  by (simp add: requeue_ring_def requeue_samples_aside Let_def) (simp add: aside_def)

lemmas asides = record_ring_aside drain_ring_aside drain_counters_aside requeue_ring_aside

section \<open>Every execution is a replay of its history\<close>

text \<open>
  How the shared buffer of a thread in its critical section differs from the buffer \<open>b\<close> that the
  operations so far give.
\<close>

fun midway :: "call_pc \<Rightarrow> metrics_buffer \<Rightarrow> metrics_buffer \<Rightarrow> bool" where
  "midway (RecordNotified s) x b = (b = record_ring s x)"
| "midway (DrainTaken now taken) x b = (drain_ring b = (taken, x))"
| "midway (DrainRolled now taken rollup) x b = (b = snd (drain_counters now taken rollup x))"
| "midway (RequeueFilled d) x b = (x = requeue_ring d b)"
| "midway _ x b = (x = b)"

fun in_section :: "call_pc \<Rightarrow> bool" where
  "in_section AtRest = False"
| "in_section (Entered call) = False"
| "in_section (Returned d) = False"
| "in_section _ = True"

text \<open>The batch a thread is about to return, or has returned.\<close>

fun answers :: "call_pc \<Rightarrow> metrics_buffer \<Rightarrow> drained option" where
  "answers (DrainRolled now taken rollup) x = Some (fst (drain_counters now taken rollup x))"
| "answers (Returned d) x = d"
| "answers _ x = None"

definition replays :: "metrics_buffer \<Rightarrow> history \<Rightarrow> locked_buffer \<Rightarrow> bool" where
  "replays b h st \<longleftrightarrow>
     (\<forall>i. in_section (thread_at st i) \<longleftrightarrow> ring_lock st = Some i)
     \<and> (\<exists>b'. replay (map (fst \<circ> snd) h) b = (map (snd \<circ> snd) h, b')
          \<and> (case ring_lock st of None \<Rightarrow> shared st = b' | Some i \<Rightarrow> midway (thread_at st i) (shared st) b'))
     \<and> (\<forall>i d. answers (thread_at st i) (shared st) = Some d \<longrightarrow> (\<exists>now. (Some i, Op (Drain now), Some d) \<in> set h))"

lemma replay_append:
  "replay (ops @ ops') b = (case replay ops b of (rs, b1) \<Rightarrow>
     case replay ops' b1 of (rs', b2) \<Rightarrow> (rs @ rs', b2))"
  by (induction ops arbitrary: b) (simp_all split: prod.split)

lemma midway_aside: "midway pc x b \<Longrightarrow> midway pc (aside f g x) (aside f g b)"
  by (cases pc) (simp_all add: asides)

lemma answers_aside: "answers pc (aside f g x) = answers pc x"
  by (cases pc) (simp_all add: asides)

lemma move_to_sel [simp]:
  "shared (move_to i pc st) = shared st" "ring_lock (move_to i pc st) = ring_lock st"
  "thread_at (move_to i pc st) = (thread_at st)(i := pc)"
  by (simp_all add: move_to_def)

lemma keep_lock: "ring_lock st = Some i \<Longrightarrow> st\<lparr>shared := x, ring_lock := Some i\<rparr> = st\<lparr>shared := x\<rparr>"
  by simp

text \<open>A thread that enters or leaves a call outside the ring's lock.\<close>

lemma replays_move:
  assumes "replays b h st" and "\<not> in_section (thread_at st i)" and "\<not> in_section pc" and "answers pc (shared st) = None"
  shows "replays b h (move_to i pc st)"
  using assms unfolding replays_def by (auto split: option.splits)

text \<open>An operation that runs beside whoever holds the ring.\<close>

lemma replays_aside:
  assumes "replays b h st" and "\<And>b. atomic_step op b = aside f g b" and "\<And>b. atomic_result op b = None"
  shows "replays b (h @ [(who, op, None)]) (st\<lparr>shared := aside f g (shared st)\<rparr>)"
proof -
  obtain b' where b': "replay (map (fst \<circ> snd) h) b = (map (snd \<circ> snd) h, b')"
    "case ring_lock st of None \<Rightarrow> shared st = b' | Some i \<Rightarrow> midway (thread_at st i) (shared st) b'"
    using assms(1) by (auto simp: replays_def)
  then have "case ring_lock st of None \<Rightarrow> aside f g (shared st) = aside f g b'
      | Some i \<Rightarrow> midway (thread_at st i) (aside f g (shared st)) (aside f g b')"
    by (auto intro: midway_aside split: option.splits)
  then show ?thesis using assms b'(1)
    by (cases "ring_lock st") (auto simp: replays_def replay_append answers_aside)
qed

lemma replays_lock:
  assumes "replays b h st" and "ring_lock st = None" and "thread_at st i = Entered call"
    and "in_section (locked_pc call)"
  shows "replays b h (move_to i (locked_pc call) (st\<lparr>ring_lock := Some i\<rparr>))"
proof -
  have "midway (locked_pc call) x b' \<longleftrightarrow> x = b'" "answers (locked_pc call) x = None" for x b'
    using assms(4) by (cases call; simp)+
  then show ?thesis using assms unfolding replays_def by auto
qed

text \<open>A section of the thread that holds the ring.\<close>

lemma replays_section:
  assumes "replays b h st" and "in_section (thread_at st i)"
    and "\<And>b'. midway (thread_at st i) (shared st) b' \<Longrightarrow>
      \<exists>b2. replay (map (fst \<circ> snd) added) b' = (map (snd \<circ> snd) added, b2) \<and> (if in_section pc then midway pc x b2 else x = b2)"
    and "\<And>d. answers pc x = Some d \<Longrightarrow> \<exists>now. (Some i, Op (Drain now), Some d) \<in> set (h @ added)"
  shows "replays b (h @ added) (move_to i pc (st\<lparr>shared := x, ring_lock := if in_section pc then Some i else None\<rparr>))"
proof -
  have lock: "ring_lock st = Some i" and alone: "in_section (thread_at st j) \<longleftrightarrow> j = i" for j
    using assms(1,2) by (auto simp: replays_def)
  obtain b' where b': "replay (map (fst \<circ> snd) h) b = (map (snd \<circ> snd) h, b')" "midway (thread_at st i) (shared st) b'"
    using assms(1) lock by (auto simp: replays_def)
  from assms(3)[OF b'(2)] obtain b2 where
    "replay (map (fst \<circ> snd) added) b' = (map (snd \<circ> snd) added, b2)" "if in_section pc then midway pc x b2 else x = b2" by blast
  moreover have "\<exists>now. (Some j, Op (Drain now), Some d) \<in> set (h @ added)"
    if "j \<noteq> i" "answers (thread_at st j) x = Some d" for j d
  proof -
    have "answers (thread_at st j) (shared st) = Some d" using that alone[of j] by (cases "thread_at st j") simp_all
    then have "\<exists>now. (Some j, Op (Drain now), Some d) \<in> set h" using assms(1) by (simp add: replays_def)
    then show ?thesis by auto
  qed
  ultimately show ?thesis using assms(4) b'(1) alone
    by (auto simp: replays_def replay_append split: if_splits)
qed

lemma replays_thread:
  assumes "replays b h st" and "thread_step i st = Some st'"
  shows "replays b (h @ map (Pair (Some i)) (option_list (takes_effect (thread_at st i) (shared st)))) st'"
proof (cases "thread_at st i")
  case (Entered call)
  show ?thesis
  proof (cases call)
    case (CallRecordEvents now n m c)
    obtain f where f: "\<And>b. record_events now n m c b = aside f id b" using record_events_aside by metis
    let ?op = "Op (Produce (RecordEvents now n m c))"
    have "replays b (h @ [(Some i, ?op, None)]) (st\<lparr>shared := aside f id (shared st)\<rparr>)"
      using assms(1) by (rule replays_aside) (simp_all add: f)
    from replays_move[OF this, of i "Returned None"] show ?thesis
      using assms(2) Entered CallRecordEvents by (simp add: thread_step_def f)
  qed (use assms Entered replays_lock[OF assms(1) _ Entered] in \<open>auto simp: thread_step_def split: if_splits\<close>)
next
  case (RecordLocked s)
  have "ring_lock st = Some i" using assms(1) RecordLocked by (auto simp: replays_def)
  then show ?thesis
    using assms(2) replays_section[OF assms(1), of i "[(Some i, Op (Produce (RecordCall s)), None)]" "RecordNotified s"
        "record_notify (shared st)"]
    by (auto simp: thread_step_def RecordLocked record_sections keep_lock)
next
  case (RecordNotified s)
  show ?thesis
    using assms(2) replays_section[OF assms(1), of i "[]" "Returned None" "record_ring s (shared st)"]
    by (auto simp: thread_step_def RecordNotified)
next
  case (DrainLocked now)
  obtain taken x where x: "drain_ring (shared st) = (taken, x)" by (cases "drain_ring (shared st)")
  moreover have "ring_lock st = Some i" using assms(1) DrainLocked by (auto simp: replays_def)
  ultimately show ?thesis
    using assms(2) replays_section[OF assms(1), of i "[]" "DrainTaken now taken" x]
    by (auto simp: thread_step_def DrainLocked keep_lock)
next
  case (DrainTaken now taken)
  let ?d = "fst (drain_counters now taken (events (shared st)) (shared st))"
  let ?x = "(shared st)\<lparr>events := events_rollup_default\<rparr>"
  have d: "fst (drain_counters now taken rollup ?x) = fst (drain_counters now taken rollup (shared st))" for rollup
    by (simp add: drain_counters_def Let_def)
  have "ring_lock st = Some i" using assms(1) DrainTaken by (auto simp: replays_def)
  then show ?thesis
    using assms(2) d replays_section[OF assms(1), of i "[(Some i, Op (Drain now), Some ?d)]"
        "DrainRolled now taken (events (shared st))" ?x]
    by (auto simp: thread_step_def DrainTaken drain_events_def drain_sections keep_lock split: prod.splits)
next
  case (DrainRolled now taken rollup)
  obtain d x where x: "drain_counters now taken rollup (shared st) = (d, x)"
    by (cases "drain_counters now taken rollup (shared st)")
  have "\<exists>now. (Some i, Op (Drain now), Some d) \<in> set h"
    using assms(1) DrainRolled x by (fastforce simp: replays_def)
  then show ?thesis
    using assms(2) replays_section[OF assms(1), of i "[]" "Returned (Some d)" x]
    by (auto simp: thread_step_def DrainRolled x)
next
  case (RequeueLocked d)
  have "ring_lock st = Some i" using assms(1) RequeueLocked by (auto simp: replays_def)
  then show ?thesis
    using assms(2) replays_section[OF assms(1), of i "[]" "RequeueFilled d" "requeue_ring d (shared st)"]
    by (auto simp: thread_step_def RequeueLocked keep_lock)
next
  case (RequeueFilled d)
  show ?thesis
    using assms(2) replays_section[OF assms(1), of i "[(Some i, Op (Requeue d), None)]" "Returned None" "requeue_events d (shared st)"]
    by (auto simp: thread_step_def RequeueFilled requeue_sections)
qed (use assms in \<open>simp_all add: thread_step_def\<close>)

lemma lock_run_replays: "lock_run b h st \<Longrightarrow> replays b h st"
proof (induction rule: lock_run.induct)
  case Start
  show ?case by (auto simp: replays_def threads_start_def)
next
  case (Call h st i call)
  then show ?case by (intro replays_move) auto
next
  case (Thread h st i st')
  from Thread.IH Thread.hyps(2) show ?case by (rule replays_thread)
next
  case (Permit h st)
  then show ?case unfolding permit_aside by (intro replays_aside) (simp_all add: permit_aside)
qed

section \<open>The ledger of a history\<close>

fun called :: "atomic_op list \<Rightarrow> tool_call_sample list" where
  "called [] = []"
| "called (Op (Produce (RecordCall s)) # ops) = s # called ops"
| "called (_ # ops) = called ops"

fun handed_back :: "atomic_op list \<Rightarrow> drained list" where
  "handed_back [] = []"
| "handed_back (Op (Requeue d) # ops) = d # handed_back ops"
| "handed_back (_ # ops) = handed_back ops"

definition handed_out :: "drained option list \<Rightarrow> drained list" where
  "handed_out rs = concat (map option_list rs)"

lemma atomic_step_inv: "metrics_inv b \<Longrightarrow> metrics_inv (atomic_step op b)"
proof (cases op)
  case (Op bop)
  assume "metrics_inv b"
  then show ?thesis
    unfolding Op by (cases bop) (simp_all add: metrics_inv_produce metrics_inv_drain metrics_inv_requeue)
qed (simp add: metrics_inv_frame[of "b\<lparr>flush_early := False\<rparr>" b])

lemma replay_ledger:
  assumes "metrics_inv b" and "replay ops b = (rs, b')"
  shows "metrics_inv b' \<and> owed c b + of_nat (cnt (\<lambda>s. sample_billable s = c) (called ops)) + sum_list (map (worth c) (handed_back ops))
     = sum_list (map (worth c) (handed_out rs)) + owed c b'"
  using assms
proof (induction ops arbitrary: b rs)
  case (Cons op ops)
  obtain rs1 where rest: "replay ops (atomic_step op b) = (rs1, b')" and rs: "rs = atomic_result op b # rs1"
    using Cons.prems(2) by (auto split: prod.splits)
  have inv: "metrics_inv (atomic_step op b)"
    using Cons.prems(1) by (rule atomic_step_inv)
  note IH = Cons.IH[OF inv rest]
  show ?case
  proof (cases op)
    case TakePermit
    have "owed c (b\<lparr>flush_early := False\<rparr>) = owed c b" by (rule owed_frame) (simp_all add: drops_of_def)
    with IH TakePermit show ?thesis by (simp add: rs handed_out_def)
  next
    case (Op bop)
    show ?thesis
    proof (cases bop)
      case (Produce p)
      show ?thesis
        using IH Op Produce owed_produces[OF Cons.prems(1), of c "[p]"]
        by (cases p) (auto simp: rs handed_out_def ac_simps)
    next
      case (Drain now)
      with IH Op metrics_lane.owed_take[OF Cons.prems(1), of c now] show ?thesis
        by (simp add: rs handed_out_def ac_simps)
    next
      case (Requeue d)
      with IH Op metrics_lane.owed_give[OF Cons.prems(1), of c d] show ?thesis
        by (simp add: rs handed_out_def ac_simps)
    qed
  qed
qed (simp add: handed_out_def)

section \<open>Properties\<close>

text \<open>
  C5. The buffer is linearizable. Let any number of threads call \<open>record\<close>, \<open>record_events\<close>, \<open>drain\<close> and
  \<open>requeue_front\<close> on one buffer, interleaving at every lock and between the sections of an operation,
  while the flush loop takes the early-flush permit at any time. Each call takes effect at one point
  between its start and its return. Performed one after the other in that order, the atomic operations
  give every \<open>drain\<close> the batch it returns and, whenever the ring is not locked, the buffer as it is.
\<close>

theorem locks_linearize:
  assumes "lock_run b h st"
  shows "fst (replay (map (fst \<circ> snd) h) b) = map (snd \<circ> snd) h
    \<and> (ring_lock st = None \<longrightarrow> snd (replay (map (fst \<circ> snd) h) b) = shared st)
    \<and> (thread_at st i = Returned (Some d) \<longrightarrow> (\<exists>now. (Some i, Op (Drain now), Some d) \<in> set h))"
proof -
  have "replays b h st" using assms by (rule lock_run_replays)
  then have answered: "answers (thread_at st i) (shared st) = Some d \<Longrightarrow> \<exists>now. (Some i, Op (Drain now), Some d) \<in> set h"
    and "\<exists>b'. replay (map (fst \<circ> snd) h) b = (map (snd \<circ> snd) h, b') \<and> (ring_lock st = None \<longrightarrow> shared st = b')"
    by (auto simp: replays_def split: option.splits)
  then show ?thesis by auto
qed

text \<open>The executions of a schedule.\<close>

datatype turn = Calls nat buffer_call | Runs nat

fun schedule :: "turn list \<Rightarrow> history \<times> locked_buffer \<Rightarrow> (history \<times> locked_buffer) option" where
  "schedule [] hs = Some hs"
| "schedule (Calls i call # ts) (h, st) =
     (case thread_at st i of
        AtRest \<Rightarrow> schedule ts (h, move_to i (Entered call) st)
      | Returned d \<Rightarrow> schedule ts (h, move_to i (Entered call) st)
      | _ \<Rightarrow> None)"
| "schedule (Runs i # ts) (h, st) =
     (case thread_step i st of
        Some st' \<Rightarrow> schedule ts (h @ map (Pair (Some i)) (option_list (takes_effect (thread_at st i) (shared st))), st')
      | None \<Rightarrow> None)"

lemma schedule_runs:
  "schedule ts (h, st) = Some (h', st') \<Longrightarrow> lock_run b h st \<Longrightarrow> lock_run b h' st'"
proof (induction ts arbitrary: h st)
  case (Cons t ts)
  show ?case
  proof (cases t)
    case (Calls i call)
    then show ?thesis
      using Cons.IH[of h "move_to i (Entered call) st"] Cons.prems lock_run.Call[OF Cons.prems(2), of i call]
      by (auto split: call_pc.splits)
  next
    case (Runs i)
    then show ?thesis
      using Cons.IH Cons.prems lock_run.Thread[OF Cons.prems(2), of i] by (auto split: option.splits)
  qed
qed simp

text \<open>
  A drain by thread 1 of what thread 0 recorded; thread 2 counts an event between its two sections on
  the ring, so that the event is in the batch.
\<close>

definition demo_turns :: "turn list" where
  "demo_turns =
     [Calls 0 (CallRecord (demo_sample ''a'' Ok)), Calls 1 (CallDrain (DateTime 5 0)),
      Calls 2 (CallRecordEvents (DateTime 4 0) ''e'' ''m'' (event_counts_default\<lparr>delivered := 1\<rparr>)),
      Runs 0, Runs 0, Runs 0, Runs 1, Runs 1, Runs 2, Runs 1, Runs 1]"

definition demo_batch :: drained where
  "demo_batch =
     \<lparr>batch_samples = [demo_sample ''a'' Ok], batch_dropped_overflow = 0, batch_dropped_non_billable = 0, batch_seq = 1,
      batch_events = [\<lparr>event_name = ''e'', mode = ''m'', usage_counts = event_counts_default\<lparr>delivered := 1\<rparr>,
                       window_start = DateTime 4 0, window_end = DateTime 5 0\<rparr>]\<rparr>"

lemmas section_evals = thread_step_def record_notify_def record_ring_def drain_ring_def drain_events_def
  drain_counters_def record_events_def ring_push_back_def usage_of_def Let_def

lemma demo_schedule:
  "\<exists>h st. schedule demo_turns ([], threads_start (with_caps 2 2)) = Some (h, st)
     \<and> ring_lock st = None \<and> thread_at st 1 = Returned (Some demo_batch)
     \<and> map (fst \<circ> snd) h = [Op (Produce (RecordCall (demo_sample ''a'' Ok))),
          Op (Produce (RecordEvents (DateTime 4 0) ''e'' ''m'' (event_counts_default\<lparr>delivered := 1\<rparr>))), Op (Drain (DateTime 5 0))]"
  by (simp add: demo_turns_def demo_batch_def threads_start_def with_caps_def section_evals events_rollup_default_def
      event_counts_default_def event_counts_add_def)

lemma demo_lock_run:
  obtains h st where "lock_run (with_caps 2 2) h st" and "ring_lock st = None" and "thread_at st 1 = Returned (Some demo_batch)"
    and "map (fst \<circ> snd) h = [Op (Produce (RecordCall (demo_sample ''a'' Ok))),
          Op (Produce (RecordEvents (DateTime 4 0) ''e'' ''m'' (event_counts_default\<lparr>delivered := 1\<rparr>))), Op (Drain (DateTime 5 0))]"
proof -
  obtain h st where st: "schedule demo_turns ([], threads_start (with_caps 2 2)) = Some (h, st)"
    "ring_lock st = None" "thread_at st 1 = Returned (Some demo_batch)"
    "map (fst \<circ> snd) h = [Op (Produce (RecordCall (demo_sample ''a'' Ok))),
          Op (Produce (RecordEvents (DateTime 4 0) ''e'' ''m'' (event_counts_default\<lparr>delivered := 1\<rparr>))), Op (Drain (DateTime 5 0))]"
    using demo_schedule by (elim exE conjE)
  from schedule_runs[OF st(1) lock_run.Start] st(2-4) show thesis by (rule that)
qed

theorem locks_linearize_witness:
  "\<exists>h st. lock_run (with_caps 2 2) h st \<and> (\<exists>now. (Some 1, Op (Drain now), Some demo_batch) \<in> set h)
     \<and> snd (replay (map (fst \<circ> snd) h) (with_caps 2 2)) = shared st"
proof -
  obtain h st where run: "lock_run (with_caps 2 2) h st" "ring_lock st = None" "thread_at st 1 = Returned (Some demo_batch)"
    by (rule demo_lock_run)
  then show ?thesis using locks_linearize[OF run(1), of 1 demo_batch] by blast
qed

text \<open>
  C6. Billing holds at the granularity of the locks and for any number of flush tasks at once, those of
  earlier sessions that an abort has not reached yet included. For every such execution on a fresh
  buffer in which the batches handed back are among those handed out, the billable calls recorded are
  those accounted for by the batches that were handed out and not handed back, which were sent, are in
  flight or were lost, plus those the buffer owes.
\<close>

theorem locked_billing_ledger:
  assumes "lock_run (with_caps c bc) h st" and "ring_lock st = None"
    and "mset (handed_back (map (fst \<circ> snd) h)) \<subseteq># mset (handed_out (map (snd \<circ> snd) h))"
  shows "of_nat (cnt sample_billable (called (map (fst \<circ> snd) h)))
      = (\<Sum>d \<in># mset (handed_out (map (snd \<circ> snd) h)) - mset (handed_back (map (fst \<circ> snd) h)). billable_in d)
        + billable_owed (shared st)
    \<and> metrics_inv (shared st)"
proof -
  let ?out = "handed_out (map (snd \<circ> snd) h)" and ?put = "handed_back (map (fst \<circ> snd) h)"
  have "replays (with_caps c bc) h st" using assms(1) by (rule lock_run_replays)
  then have "replay (map (fst \<circ> snd) h) (with_caps c bc) = (map (snd \<circ> snd) h, shared st)"
    using assms(2) by (auto simp: replays_def)
  note replayed = replay_ledger[OF metrics_inv_with_caps this, of True]
  have "worth True = billable_in" by (rule ext) (rule owed_billable)
  from replayed[unfolded this owed_billable]
  have led: "of_nat (cnt sample_billable (called (map (fst \<circ> snd) h))) + sum_list (map billable_in ?put)
      = sum_list (map billable_in ?out) + billable_owed (shared st)" and inv: "metrics_inv (shared st)"
    by (simp_all add: billable_owed_def[of "with_caps c bc"])
  have "sum_list (map billable_in ?out) = (\<Sum>d \<in># mset ?out. billable_in d)"
    "sum_list (map billable_in ?put) = (\<Sum>d \<in># mset ?put. billable_in d)"
    by (simp_all flip: sum_mset_sum_list mset_map)
  moreover have "(\<Sum>d \<in># mset ?out. billable_in d) = (\<Sum>d \<in># mset ?out - mset ?put. billable_in d) + (\<Sum>d \<in># mset ?put. billable_in d)"
    using assms(3) by (metis image_mset_union subset_mset.diff_add sum_mset.union)
  ultimately have "of_nat (cnt sample_billable (called (map (fst \<circ> snd) h))) + (\<Sum>d \<in># mset ?put. billable_in d)
      = ((\<Sum>d \<in># mset ?out - mset ?put. billable_in d) + billable_owed (shared st)) + (\<Sum>d \<in># mset ?put. billable_in d)"
    using led by (simp add: ac_simps)
  then show ?thesis using inv by simp
qed

theorem locked_billing_ledger_witness:
  "\<exists>h st. lock_run (with_caps 2 2) h st \<and> called (map (fst \<circ> snd) h) = [demo_sample ''a'' Ok]
     \<and> (1 :: u64) = (\<Sum>d \<in># mset (handed_out (map (snd \<circ> snd) h)). billable_in d) + billable_owed (shared st)"
proof -
  obtain h st where run: "lock_run (with_caps 2 2) h st" "ring_lock st = None"
    and ops: "map (fst \<circ> snd) h = [Op (Produce (RecordCall (demo_sample ''a'' Ok))),
        Op (Produce (RecordEvents (DateTime 4 0) ''e'' ''m'' (event_counts_default\<lparr>delivered := 1\<rparr>))), Op (Drain (DateTime 5 0))]"
    by (rule demo_lock_run)
  have "cnt sample_billable [demo_sample ''a'' Ok] = 1"
    by (simp add: cnt_def sample_billable_def demo_sample_def is_billable_def)
  with locked_billing_ledger[OF run] run ops show ?thesis by (intro exI[of _ h] exI[of _ st]) simp
qed

end
