(* ===== verification/ConfigTrack.thy ===== *)
theory ConfigTrack
  imports AgentCorrect
begin

text \<open>
  An abstract specification of what a session does with configurations, and that the reader of
  \<open>agent.rs\<close> implements it. The specification sees only the configuration updates of the stream, each
  with the host's answer; it says which bundles the host is offered, which acknowledgements go out and
  which hash is in effect. Files, tokens, licences and everything else a session handles do not occur
  in it.
\<close>

section \<open>The specification\<close>

text \<open>The updates a reader can meet: those before the stream breaks or the reader is dropped.\<close>

fun config_updates :: "'b inbound list \<Rightarrow> ('b config_update \<times> message_env) list" where
  "config_updates [] = []"
| "config_updates (Message e (Some (ConfigUpdate u)) # items) = (u, e) # config_updates items"
| "config_updates (Message e k # items) = config_updates items"
| "config_updates (StreamError e # items) = []"
| "config_updates (DroppedWaiting # items) = []"

datatype verdict = Accepted | Refused string | Unanswered

text \<open>Without a bundle or without a host there is nobody to refuse.\<close>

definition verdict_of :: "bool \<Rightarrow> 'b config_update \<times> message_env \<Rightarrow> verdict" where
  "verdict_of hosted = (\<lambda>(u, e).
     if hosted \<and> cu_bundle u \<noteq> None
     then case me_apply e of Applied \<Rightarrow> Accepted | ApplyFailed why \<Rightarrow> Refused why | ApplyDropped \<Rightarrow> Unanswered
     else Accepted)"

definition hash_after :: "bool \<Rightarrow> 'b config_update \<times> message_env \<Rightarrow> string option \<Rightarrow> string option" where
  "hash_after hosted x hash =
     (if verdict_of hosted x = Accepted \<and> cu_config_hash (fst x) \<noteq> [] then Some (cu_config_hash (fst x)) else hash)"

definition offer_of :: "bool \<Rightarrow> 'b config_update \<times> message_env \<Rightarrow> 'b list" where
  "offer_of hosted x = (if hosted then option_list (cu_bundle (fst x)) else [])"

definition ack_of :: "bool \<Rightarrow> 'b config_update \<times> message_env \<Rightarrow> agent_message list" where
  "ack_of hosted x =
     (if me_ack (snd x) = AckSent
      then case verdict_of hosted x of
             Accepted \<Rightarrow> [config_ack_message (me_now (snd x)) (cu_config_hash (fst x)) ''active'' []]
           | Refused why \<Rightarrow> [config_ack_message (me_now (snd x)) (cu_config_hash (fst x)) ''error'' why]
           | Unanswered \<Rightarrow> []
      else [])"

text \<open>What a series of updates leaves of the runner.\<close>

definition tracked :: "'b runner \<Rightarrow> ('b config_update \<times> message_env) list \<Rightarrow> agent_message list \<Rightarrow> 'b runner \<Rightarrow> bool" where
  "tracked r us acks r' \<longleftrightarrow>
     (let hosted = has_config_applier (hook r) in
        has_config_applier (hook r') = hosted
        \<and> applied_config_hash r' = fold (hash_after hosted) us (applied_config_hash r)
        \<and> applied_bundles (hook r') = applied_bundles (hook r) @ concat (map (offer_of hosted) us)
        \<and> acks = concat (map (ack_of hosted) us))"

text \<open>An item at which no shutdown cuts the reader off.\<close>

fun uncut :: "'b inbound \<Rightarrow> bool" where
  "uncut (Message e kind) = (me_apply e \<noteq> ApplyDropped \<and> me_ack e \<noteq> AckDropped \<and> \<not> me_license_dropped e)"
| "uncut (StreamError err) = True"
| "uncut DroppedWaiting = False"

section \<open>The reader implements it\<close>

lemma tracked_nil: "tracked r [] [] r"
  by (simp add: tracked_def)

lemma tracked_append:
  "tracked r us acks r1 \<Longrightarrow> tracked r1 us' acks' r2 \<Longrightarrow> tracked r (us @ us') (acks @ acks') r2"
  by (simp add: tracked_def Let_def)

lemma handle_config_update_tracked:
  assumes "handle_config_update W e u r = (h, acks, r')"
  shows "if h = Panicked then tracked r [] acks r' else tracked r [(u, e)] acks r'"
proof -
  obtain res r1 where sv: "save_lkg W e u r = (res, r1)" by (cases "save_lkg W e u r")
  obtain s where r1: "r1 = r\<lparr>disk := s\<rparr>" using save_lkg_frame[OF sv] by blast
  show ?thesis
    using assms
    by (auto simp: handle_config_update_def sv r1 Let_def finish_config_update_def tracked_def verdict_of_def
        hash_after_def offer_of_def ack_of_def
        split: option.splits if_splits apply_outcome.splits ack_outcome.splits)
qed

text \<open>The other messages do not touch what is tracked and are not acknowledged.\<close>

lemma other_message_tracked:
  assumes "handle_message W e nonce uid kind r = (h, acks, r')" and "\<And>u. kind \<noteq> Some (ConfigUpdate u)"
  shows "tracked r [] acks r'"
proof (cases kind)
  case (Some k)
  with assms show ?thesis
    by (cases k) (auto simp: handle_message_def handle_rotation_frame handle_license_update_def tracked_def Let_def split: if_splits)
qed (use assms in \<open>simp add: handle_message_def tracked_nil\<close>)

text \<open>The update a message carries, and one message as the reader handles it.\<close>

definition update_in :: "message_env \<Rightarrow> 'b server_kind option \<Rightarrow> ('b config_update \<times> message_env) list" where
  "update_in e kind = (case kind of Some (ConfigUpdate u) \<Rightarrow> [(u, e)] | _ \<Rightarrow> [])"

lemma config_updates_message:
  "config_updates (Message e kind # items) = update_in e kind @ config_updates items"
  unfolding update_in_def by (cases kind; simp; cases "the kind"; simp)

lemma handle_message_tracked:
  assumes "handle_message W e nonce uid kind r = (h, acks, r')"
  shows "\<exists>us. prefix us (update_in e kind) \<and> tracked r us acks r' \<and> (h = Continue \<longrightarrow> us = update_in e kind)"
proof (cases "\<exists>u. kind = Some (ConfigUpdate u)")
  case True
  then obtain u where kind: "kind = Some (ConfigUpdate u)" by blast
  then have "handle_config_update W e u r = (h, acks, r')" using assms by (simp add: handle_message_def)
  note step = handle_config_update_tracked[OF this]
  show ?thesis
  proof (cases "h = Panicked")
    case True
    with step show ?thesis by (intro exI[of _ "[]"]) simp
  next
    case False
    with step show ?thesis by (intro exI[of _ "[(u, e)]"]) (simp add: kind update_in_def)
  qed
next
  case False
  with other_message_tracked[OF assms] show ?thesis by (auto simp: update_in_def split: option.splits server_kind.splits)
qed

text \<open>The hash in effect once the reader has gone through \<open>n\<close> items, having met the updates \<open>us\<close> in all.\<close>

definition seen_hash :: "'b runner \<Rightarrow> ('b config_update \<times> message_env) list \<Rightarrow> 'b inbound list \<Rightarrow> nat \<Rightarrow> string option" where
  "seen_hash r us items n =
     fold (hash_after (has_config_applier (hook r))) (take (length (config_updates (take n items))) us) (applied_config_hash r)"

lemma seen_hash_message:
  assumes "tracked r (update_in e kind) acks r1"
  shows "seen_hash r (update_in e kind @ us) (Message e kind # items) (Suc n) = seen_hash r1 us items n"
  using assms by (simp add: seen_hash_def tracked_def Let_def config_updates_message)

lemma seen_hash_stopped:
  assumes "tracked r us acks r1" and "prefix us (update_in e kind)"
  shows "seen_hash r us (Message e kind # items) (Suc n) = applied_config_hash r1"
proof -
  have "length us \<le> length (update_in e kind)" using assms(2) by (rule prefix_length_le)
  with assms(1) show ?thesis by (simp add: seen_hash_def tracked_def Let_def config_updates_message)
qed

lemma hash_cell_0: "hash_cell W nonce uid items r 0 = seen_hash r us items 0"
  by (simp add: hash_cell_def seen_hash_def)

lemma hash_cell_message:
  assumes "handle_message W e nonce uid kind r = (h, acks, r1)"
  shows "hash_cell W nonce uid (Message e kind # items) r (Suc n)
    = (if h = Continue then hash_cell W nonce uid items r1 n else applied_config_hash r1)"
  using assms by (cases h) (simp_all add: hash_cell_def split_def)

lemma read_inbound_tracked:
  assumes "read_inbound W nonce uid items r = (h, acks, r')"
  shows "\<exists>us. prefix us (config_updates items) \<and> tracked r us acks r' \<and> (h = Continue \<longrightarrow> us = config_updates items)
    \<and> (\<forall>n. hash_cell W nonce uid items r n = seen_hash r us items n)"
  using assms
proof (induction items arbitrary: r h acks r')
  case (Cons item items)
  show ?case
  proof (cases item)
    case (Message e kind)
    obtain h1 acks1 r1 where m: "handle_message W e nonce uid kind r = (h1, acks1, r1)"
      by (cases "handle_message W e nonce uid kind r")
    let ?u = "update_in e kind"
    obtain us1 where first: "prefix us1 ?u" "tracked r us1 acks1 r1" "h1 = Continue \<longrightarrow> us1 = ?u"
      using handle_message_tracked[OF m] by blast
    show ?thesis
    proof (cases "h1 = Continue")
      case True
      with first have t: "tracked r ?u acks1 r1" by simp
      obtain h2 acks2 r2 where rest: "read_inbound W nonce uid items r1 = (h2, acks2, r2)"
        by (cases "read_inbound W nonce uid items r1")
      with Cons.prems m True have eq: "(h, acks, r') = (h2, acks1 @ acks2, r2)" by (simp add: Message)
      obtain us where us: "prefix us (config_updates items)" "tracked r1 us acks2 r2"
        "h2 = Continue \<longrightarrow> us = config_updates items" "\<forall>n. hash_cell W nonce uid items r1 n = seen_hash r1 us items n"
        using Cons.IH[OF rest] by blast
      have "hash_cell W nonce uid (item # items) r n = seen_hash r (?u @ us) (item # items) n" for n
        using us(4) True by (cases n) (simp_all add: Message hash_cell_0 hash_cell_message[OF m] seen_hash_message[OF t])
      with eq us(1,3) tracked_append[OF t us(2)] show ?thesis
        by (intro exI[of _ "?u @ us"]) (simp add: Message config_updates_message)
    next
      case False
      with Cons.prems m have eq: "(h, acks, r') = (h1, acks1, r1)" by (cases h1) (simp_all add: Message)
      have "hash_cell W nonce uid (item # items) r n = seen_hash r us1 (item # items) n" for n
        using False
        by (cases n) (simp_all add: Message hash_cell_0 hash_cell_message[OF m] seen_hash_stopped[OF first(2,1)])
      with eq first(1,2) False show ?thesis
        by (intro exI[of _ us1]) (simp add: Message config_updates_message prefix_prefix)
    qed
  next
    case (StreamError err)
    have "hash_cell W nonce uid (item # items) r n = seen_hash r [] (item # items) n" for n
      by (cases n) (simp_all add: StreamError hash_cell_def seen_hash_def)
    with Cons.prems show ?thesis by (intro exI[of _ "[]"]) (auto simp: StreamError tracked_nil)
  next
    case DroppedWaiting
    have "hash_cell W nonce uid (item # items) r n = seen_hash r [] (item # items) n" for n
      by (cases n) (simp_all add: DroppedWaiting hash_cell_def seen_hash_def)
    with Cons.prems show ?thesis by (intro exI[of _ "[]"]) (auto simp: DroppedWaiting tracked_nil)
  qed
qed (simp add: tracked_nil hash_cell_def seen_hash_def)

lemma handle_message_uncut:
  "uncut (Message e kind) \<Longrightarrow> fst (handle_message W e nonce uid kind r) \<noteq> FutureDropped"
  by (auto simp: handle_message_def handle_config_update_def handle_license_update_def finish_config_update_def Let_def
      split: option.splits server_kind.splits apply_outcome.splits ack_outcome.splits prod.splits if_splits)

lemma read_inbound_uncut:
  "list_all uncut items \<Longrightarrow> fst (read_inbound W nonce uid items r) \<noteq> FutureDropped"
proof (induction items arbitrary: r)
  case (Cons item items)
  show ?case
  proof (cases item)
    case (Message e kind)
    obtain h1 acks1 r1 where m: "handle_message W e nonce uid kind r = (h1, acks1, r1)"
      by (cases "handle_message W e nonce uid kind r")
    with Cons.prems handle_message_uncut[of e kind W nonce uid r] have "h1 \<noteq> FutureDropped" by (simp add: Message)
    with Cons.IH[of r1] Cons.prems m show ?thesis by (cases h1) (auto simp: Message split_def)
  qed (use Cons.prems in simp_all)
qed simp

text \<open>A session, from its Channel on, under the specification.\<close>

lemma session_tracked:
  assumes "run_session W e r = (res, Some t, r')"
  shows "\<exists>us. prefix us (config_updates (se_inbound e)) \<and> tracked r us (tr_acks t) r'
    \<and> (res = SessionOk \<and> list_all uncut (se_inbound e) \<longrightarrow> us = config_updates (se_inbound e))
    \<and> (has_status_source (hook r) \<longrightarrow>
         tr_status t = fst (status_loop (seen_hash r us (se_inbound e)) (se_status e)))"
proof -
  obtain o1 r1 where oc: "open_channel W e r = (o1, r1)" by (cases "open_channel W e r")
  with assms obtain uid where sb: "session_body W e uid r1 = (res, t, r')"
    by (cases o1) (auto simp: run_session_def split: prod.splits)
  have r1: "hook r1 = hook r" "applied_config_hash r1 = applied_config_hash r"
    by (subst open_channel_frame[OF oc], simp)+
  obtain h acks r2 where ri: "read_inbound W (se_nonce e) uid (se_inbound e) r1 = (h, acks, r2)"
    and out: "tr_acks t = acks" "hook r' = hook r2" "applied_config_hash r' = applied_config_hash r2"
    and res: "res = session_end_of h"
    by (rule session_body_cases[OF sb]) auto
  obtain us where us: "prefix us (config_updates (se_inbound e))" "tracked r1 us acks r2"
    "h = Continue \<longrightarrow> us = config_updates (se_inbound e)"
    "\<forall>n. hash_cell W (se_nonce e) uid (se_inbound e) r1 n = seen_hash r1 us (se_inbound e) n"
    using read_inbound_tracked[OF ri] by blast
  have "h = Continue" if "res = SessionOk" "list_all uncut (se_inbound e)"
    using that res read_inbound_uncut[OF that(2), of W "se_nonce e" uid r1] ri by (cases h) simp_all
  moreover have "tracked r us (tr_acks t) r'" using us(2) by (simp add: tracked_def r1 out)
  moreover have "hash_cell W (se_nonce e) uid (se_inbound e) r1 = seen_hash r us (se_inbound e)"
    using us(4) by (auto simp: seen_hash_def r1)
  then have "tr_status t = fst (status_loop (seen_hash r us (se_inbound e)) (se_status e))" if "has_status_source (hook r)"
    using sb that by (auto simp: session_body_def Let_def r1 split: prod.splits)
  ultimately show ?thesis using us(1,3) by blast
qed

text \<open>
  C8. A session tracks the configuration. For some number of the updates in the stream, all of them when the
  session ends well and no shutdown cut it off, the session has offered the host exactly their bundles, in order; has
  acknowledged exactly those whose acknowledgement the channel took and whose verdict came, in order
  and with that verdict; and the hash in effect is that of the last accepted one, or what it was. A
  refused configuration, and one whose verdict a shutdown cut off, never changes it. All other messages
  and the disk have no influence.
\<close>

theorem sessions_track_the_configuration:
  assumes "run_session W e r = (res, Some t, r')"
  shows "\<exists>us. prefix us (config_updates (se_inbound e))
    \<and> applied_config_hash r' = fold (hash_after (has_config_applier (hook r))) us (applied_config_hash r)
    \<and> applied_bundles (hook r') = applied_bundles (hook r) @ concat (map (offer_of (has_config_applier (hook r))) us)
    \<and> tr_acks t = concat (map (ack_of (has_config_applier (hook r))) us)
    \<and> (res = SessionOk \<and> list_all uncut (se_inbound e) \<longrightarrow> us = config_updates (se_inbound e))"
  using session_tracked[OF assms] unfolding tracked_def Let_def by blast

definition demo_updates :: "bytes inbound list" where
  "demo_updates =
     [Message (demo_message_env (ApplyFailed ''no'')) (Some (ConfigUpdate \<lparr>cu_config_hash = ''h8'', cu_bundle = Some [1]\<rparr>)),
      Message (demo_message_env Applied) (Some (ConfigUpdate \<lparr>cu_config_hash = ''h9'', cu_bundle = None\<rparr>))]"

theorem sessions_track_the_configuration_witness:
  "\<exists>res t r' us. run_session demo_world (demo_session demo_updates) (with_config_applier demo_runner) = (res, Some t, r')
     \<and> prefix us (config_updates demo_updates) \<and> length (config_updates demo_updates) = 2
     \<and> applied_config_hash r' = fold (hash_after True) us None"
proof -
  have c: "client (with_config_applier demo_runner) = demo_client" "has_config_applier (hook (with_config_applier demo_runner))"
    "applied_config_hash (with_config_applier demo_runner) = None" "se_inbound (demo_session demo_updates) = demo_updates"
    by (simp_all add: with_config_applier_def demo_runner_def runner_new_def demo_session_def)
  obtain res t r' where run: "run_session demo_world (demo_session demo_updates) (with_config_applier demo_runner) = (res, Some t, r')"
    using demo_run_session[OF c(1)] by blast
  have "length (config_updates demo_updates) = 2" by (simp add: demo_updates_def)
  with sessions_track_the_configuration[OF run] run c show ?thesis by auto
qed

section \<open>What the status reports say\<close>

text \<open>
  C39. Status reports tell the configuration that is in effect. In a session with a status source, one
  report per tick goes out, in order, until the channel closes. Each carries its tick's snapshot and the
  hash that the specification gives for the updates the reader had met when the tick loaded the shared
  cell: that of the last one the host had accepted by then, or the hash from before the session, or the
  empty string when nothing was ever applied. These are the updates that the session acknowledges, so a
  report and an acknowledgement never contradict each other, and a report made after the last update
  names the hash the runner is left with.
\<close>

theorem status_reports_name_the_running_configuration:
  assumes "run_session W e r = (res, Some t, r')" and "has_status_source (hook r)"
  shows "\<exists>us. prefix us (config_updates (se_inbound e))
    \<and> tr_acks t = concat (map (ack_of (has_config_applier (hook r))) us)
    \<and> applied_config_hash r' = fold (hash_after (has_config_applier (hook r))) us (applied_config_hash r)
    \<and> (res = SessionOk \<and> list_all uncut (se_inbound e) \<longrightarrow> us = config_updates (se_inbound e))
    \<and> tr_status t =
        map (\<lambda>tick. snapshot_to_message (st_now tick) (st_snapshot tick)
               (case fold (hash_after (has_config_applier (hook r)))
                       (take (length (config_updates (take (st_seen tick) (se_inbound e)))) us) (applied_config_hash r) of
                  None \<Rightarrow> [] | Some hash \<Rightarrow> hash))
          (takeWhile st_open (se_status e))"
proof -
  obtain us where "prefix us (config_updates (se_inbound e))" "tracked r us (tr_acks t) r'"
    "res = SessionOk \<and> list_all uncut (se_inbound e) \<longrightarrow> us = config_updates (se_inbound e)"
    and st: "tr_status t = fst (status_loop (seen_hash r us (se_inbound e)) (se_status e))"
    using session_tracked[OF assms(1)] assms(2) by blast
  moreover have "unwrap_or_default x = (case x of None \<Rightarrow> [] | Some hash \<Rightarrow> hash)" for x :: "string option"
    by (simp add: unwrap_or_default_def)
  then have "tr_status t =
        map (\<lambda>tick. snapshot_to_message (st_now tick) (st_snapshot tick)
               (case fold (hash_after (has_config_applier (hook r)))
                       (take (length (config_updates (take (st_seen tick) (se_inbound e)))) us) (applied_config_hash r) of
                  None \<Rightarrow> [] | Some hash \<Rightarrow> hash))
          (takeWhile st_open (se_status e))"
    by (simp add: st status_loop_reports seen_hash_def)
  ultimately show ?thesis unfolding tracked_def Let_def by blast
qed

definition demo_tick :: "nat \<Rightarrow> status_tick" where
  "demo_tick n = \<lparr>st_snapshot = \<lparr>plugins = [], warnings = [''w''], cluster = None, secrets_digest = [], delivery_refusal = None\<rparr>,
     st_now = DateTime 0 0, st_seen = n, st_open = True\<rparr>"

text \<open>Two updates without a bundle, and reports before, between and after them.\<close>

definition demo_stream :: "bytes inbound list" where
  "demo_stream =
     [Message (demo_message_env Applied) (Some (ConfigUpdate \<lparr>cu_config_hash = ''h8'', cu_bundle = None\<rparr>)),
      Message (demo_message_env Applied) (Some (ConfigUpdate \<lparr>cu_config_hash = ''h9'', cu_bundle = None\<rparr>))]"

definition demo_status_session :: "bytes session_env" where
  "demo_status_session = (demo_session demo_stream)\<lparr>se_status := [demo_tick 0, demo_tick 1, demo_tick 2]\<rparr>"

lemma demo_stream_read: "\<exists>acks r'. read_inbound W nonce uid demo_stream r = (Continue, acks, r')"
  by (simp add: demo_stream_def handle_message_def handle_config_update_def save_lkg_def finish_config_update_def
      demo_message_env_def Let_def)

lemma demo_status_run:
  assumes "client r = demo_client"
  shows "\<exists>t r'. run_session demo_world demo_status_session r = (SessionOk, Some t, r')"
proof -
  have sel: "se_nonce demo_status_session = se_nonce (demo_session demo_stream)"
    "se_net demo_status_session = se_net (demo_session demo_stream)"
    "se_open demo_status_session = se_open (demo_session demo_stream)"
    by (simp_all add: demo_status_session_def)
  have "open_channel demo_world demo_status_session r = open_channel demo_world (demo_session demo_stream) r"
    unfolding open_channel_def sel by (rule refl)
  then obtain uid r1 where oc: "open_channel demo_world demo_status_session r = (Inr uid, r1)"
    using demo_open[OF assms, of demo_stream] by auto
  obtain res t r' where sb: "session_body demo_world demo_status_session uid r1 = (res, t, r')"
    by (cases "session_body demo_world demo_status_session uid r1")
  have "se_inbound demo_status_session = demo_stream" by (simp add: demo_status_session_def demo_session_def)
  with demo_stream_read obtain acks r2 where
    read: "read_inbound demo_world (se_nonce demo_status_session) uid (se_inbound demo_status_session) r1 = (Continue, acks, r2)"
    by metis
  have "res = SessionOk"
    by (rule session_body_cases[OF sb]) (simp only: read prod.inject session_end_of.simps)
  with oc sb show ?thesis by (simp add: run_session_def)
qed

theorem status_reports_name_the_running_configuration_witness:
  "\<exists>t r'. run_session demo_world demo_status_session (with_status_source demo_runner) = (SessionOk, Some t, r')
     \<and> tr_status t = [snapshot_to_message (DateTime 0 0) (st_snapshot (demo_tick 0)) [],
                      snapshot_to_message (DateTime 0 0) (st_snapshot (demo_tick 1)) ''h8'',
                      snapshot_to_message (DateTime 0 0) (st_snapshot (demo_tick 2)) ''h9'']
     \<and> applied_config_hash r' = Some ''h9''"
proof -
  let ?r = "with_status_source demo_runner"
  have c: "client ?r = demo_client" "has_status_source (hook ?r)" "has_config_applier (hook ?r) = False"
    "applied_config_hash ?r = None" "se_inbound demo_status_session = demo_stream"
    "se_status demo_status_session = [demo_tick 0, demo_tick 1, demo_tick 2]"
    by (simp_all add: with_status_source_def demo_runner_def runner_new_def demo_session_def demo_status_session_def)
  obtain t r' where run: "run_session demo_world demo_status_session ?r = (SessionOk, Some t, r')"
    using demo_status_run[OF c(1)] by blast
  have ticks: "takeWhile st_open [demo_tick 0, demo_tick 1, demo_tick 2] = [demo_tick 0, demo_tick 1, demo_tick 2]"
    "st_now (demo_tick n) = DateTime 0 0" "st_seen (demo_tick n) = n" for n
    by (simp_all add: demo_tick_def)
  have ups: "config_updates demo_stream = [(\<lparr>cu_config_hash = ''h8'', cu_bundle = None\<rparr>, demo_message_env Applied),
      (\<lparr>cu_config_hash = ''h9'', cu_bundle = None\<rparr>, demo_message_env Applied)]"
    "length (config_updates (take 0 demo_stream)) = 0" "length (config_updates (take 1 demo_stream)) = 1"
    "length (config_updates (take 2 demo_stream)) = 2" "list_all uncut demo_stream"
    by (simp_all add: demo_stream_def demo_message_env_def)
  have after: "hash_after False (\<lparr>cu_config_hash = h # hs, cu_bundle = None\<rparr>, e) x = Some (h # hs)" for h hs e x
    by (simp add: hash_after_def verdict_of_def)
  have hash: "applied_config_hash r' = fold (hash_after False) (config_updates demo_stream) None"
    and st: "tr_status t =
      map (\<lambda>tick. snapshot_to_message (st_now tick) (st_snapshot tick)
             (case fold (hash_after False) (take (length (config_updates (take (st_seen tick) demo_stream)))
                          (config_updates demo_stream)) None of
                None \<Rightarrow> [] | Some hash \<Rightarrow> hash)) [demo_tick 0, demo_tick 1, demo_tick 2]"
    using status_reports_name_the_running_configuration[OF run c(2)] ups(5) unfolding c(3-6) ticks(1) by auto
  have "applied_config_hash r' = Some ''h9''" unfolding hash ups(1) by (simp add: after)
  moreover have "tr_status t = [snapshot_to_message (DateTime 0 0) (st_snapshot (demo_tick 0)) [],
                      snapshot_to_message (DateTime 0 0) (st_snapshot (demo_tick 1)) ''h8'',
                      snapshot_to_message (DateTime 0 0) (st_snapshot (demo_tick 2)) ''h9'']"
    unfolding st list.map ticks ups(2-4) unfolding ups(1) by (simp add: after)
  ultimately show ?thesis using run by blast
qed

end
