(* ===== verification/Presented.thy ===== *)
theory Presented
  imports AgentCorrect
begin

text \<open>
  Which tokens a run presents. The control plane sees a token when a Channel is opened: the request it
  answers (\<open>se_open\<close>) carries the token as metadata. That a run never presents a bad token is stated
  without looking into the run: two runs whose control planes answer alike on every request with a good
  token, and differ in any way on all other requests, are the same run.
\<close>

section \<open>Good tokens\<close>

text \<open>Life left at the connect: more than five minutes and more than three heartbeat intervals.\<close>

definition life_left :: "jwt_packages \<Rightarrow> duration \<Rightarrow> int \<Rightarrow> string \<Rightarrow> bool" where
  "life_left J heartbeat now token \<longleftrightarrow>
     (\<exists>exp_at. jwt_exp J token = Some exp_at \<and> 300 < exp_at - now \<and> int (as_secs (heartbeat * 3)) < exp_at - now)"

text \<open>Issued by the control plane in this very iteration.\<close>

definition just_issued :: "'b loop_env \<Rightarrow> agent_runner_config \<Rightarrow> string \<Rightarrow> bool" where
  "just_issued e c token \<longleftrightarrow> (\<exists>resp. answered (le_register_before e) c resp \<and> rr_instance_jwt resp = token)"

definition presentable :: "'b world \<Rightarrow> agent_runner_config \<Rightarrow> 'b loop_env \<Rightarrow> string \<Rightarrow> bool" where
  "presentable W c e token \<longleftrightarrow>
     life_left (w_jwt W) (heartbeat_interval c) (le_now e) token \<or> just_issued e c token"

text \<open>Two iterations that differ at most in the answers to requests without a good token.\<close>

definition alike :: "'b world \<Rightarrow> agent_runner_config \<Rightarrow> 'b loop_env \<Rightarrow> 'b loop_env \<Rightarrow> bool" where
  "alike W c e e' \<longleftrightarrow>
     (\<exists>answer. e' = e\<lparr>le_session := (le_session e)\<lparr>se_open := answer\<rparr>\<rparr>
        \<and> (\<forall>ch md token. md ''mcpg-instance-token'' = Some token \<and> presentable W c e token
             \<longrightarrow> answer ch md = se_open (le_session e) ch md))"

section \<open>A session asks with its token only\<close>

lemma authed_client_token:
  "authed_client net c = (Inr a, c') \<Longrightarrow> jwt c = Some (ji_jwt (au_interceptor a))"
  using connect_frame(2)[of net c]
  by (auto simp: authed_client_def try_bind_def split: prod.splits sum.splits option.splits)

lemma interceptor_call_token:
  "interceptor_call R j req = Inr md \<Longrightarrow> md ''mcpg-instance-token'' = Some (ji_jwt j)"
  by (auto simp: interceptor_call_def split: if_splits)

lemma open_channel_answers:
  assumes "\<And>ch md token. jwt (client r) = Some token \<Longrightarrow> md ''mcpg-instance-token'' = Some token \<Longrightarrow>
      answer ch md = se_open e ch md"
  shows "open_channel W (e\<lparr>se_open := answer\<rparr>) r = open_channel W e r"
proof -
  obtain res c where ac: "authed_client (se_net e) (client r) = (res, c)" by (cases "authed_client (se_net e) (client r)")
  show ?thesis
  proof (cases res)
    case (Inr a)
    let ?req = "channel_request W (se_nonce e) r"
    show ?thesis
    proof (cases "interceptor_call (w_rules W) (au_interceptor a) ?req")
      case ic: (Inr md)
      have "answer (au_channel a) md = se_open e (au_channel a) md"
        using assms authed_client_token[of "se_net e" "client r" a c] ac Inr interceptor_call_token[OF ic] by blast
      then show ?thesis by (simp add: open_channel_def ac Inr ic Let_def)
    qed (simp add: open_channel_def ac Inr Let_def)
  qed (simp add: open_channel_def ac Let_def)
qed

lemma session_body_answers: "session_body W (e\<lparr>se_open := answer\<rparr>) uid r = session_body W e uid r"
proof -
  let ?e = "e\<lparr>se_open := answer\<rparr>"
  have sel: "se_nonce ?e = se_nonce e" "se_inbound ?e = se_inbound e" "se_heartbeats ?e = se_heartbeats e"
    "se_metrics_ticks ?e = se_metrics_ticks e" "se_metrics ?e = se_metrics e" "se_log_ticks ?e = se_log_ticks e"
    "se_logs ?e = se_logs e" "se_status ?e = se_status e" "se_stopping ?e = se_stopping e"
    "se_final_metrics ?e = se_final_metrics e" "se_final_logs ?e = se_final_logs e"
    "se_metrics_rest ?e = se_metrics_rest e" "se_logs_rest ?e = se_logs_rest e"
    by simp_all
  show ?thesis unfolding session_body_def sel by (rule refl)
qed

lemma run_session_answers:
  assumes "\<And>ch md token. jwt (client r) = Some token \<Longrightarrow> md ''mcpg-instance-token'' = Some token \<Longrightarrow>
      answer ch md = se_open e ch md"
  shows "run_session W (e\<lparr>se_open := answer\<rparr>) r = run_session W e r"
proof -
  have "open_channel W (e\<lparr>se_open := answer\<rparr>) r = open_channel W e r" using assms by (rule open_channel_answers)
  then show ?thesis unfolding run_session_def session_body_answers by simp
qed

section \<open>An iteration connects with a good token only\<close>

text \<open>
  What the continuation of the token check may rely on, when something can replace a token: the token
  of the runner it is given is good.
\<close>

lemma refresh_token_good:
  assumes "extract_token (enrollment_url (cfg r)) = Inr enrollment"
    and "heartbeat_interval (cfg r) < from_secs (2 ^ 61)"
    and "\<And>bo r1 token. jwt (client r1) = Some token \<Longrightarrow> presentable W (cfg r) e token \<Longrightarrow> k (bo, r1) = k' (bo, r1)"
  shows "refresh_token W e k bo r = refresh_token W e k' bo r"
proof (cases "expires_within (token_exp W r) (le_now e) (token_refresh_window (heartbeat_interval (cfg r)))")
  case True
  obtain rg ds r1 where rg: "register_fresh W (le_register_before e) r = (rg, ds, r1)"
    by (cases "register_fresh W (le_register_before e) r")
  have "k (bo, r1) = k' (bo, r1)" if "rg = RegisterOk creds" for creds
  proof -
    obtain resp c where "answered (le_register_before e) (cfg r) resp"
      "r1 = install_on (w_creds W) creds (emit (Registered (rr_instance_id resp)) (r\<lparr>client := c\<rparr>)
        \<lparr>disk := write_creds (w_creds W) (re_io (le_register_before e)) (state_dir (cfg r)) creds (disk r)\<rparr>)"
      "creds = creds_of_response (w_creds W) (re_now (le_register_before e)) resp"
      using register_fresh_answered[of W "le_register_before e" r creds ds r1] rg \<open>rg = RegisterOk creds\<close> by blast
    then have "just_issued e (cfg r) (rr_instance_jwt resp)" "jwt (client r1) = Some (rr_instance_jwt resp)"
      by (auto simp: just_issued_def install_on_frame creds_of_response_def)
    with assms(3)[of r1 "rr_instance_jwt resp" bo] show ?thesis by (simp add: presentable_def)
  qed
  with True assms(1) rg show ?thesis by (cases rg) (simp_all add: refresh_token_def after_register_def)
next
  case False
  then obtain exp_at where "token_exp W r = Some exp_at" and
    left: "300 < exp_at - le_now e" "int (as_secs (heartbeat_interval (cfg r) * 3)) < exp_at - le_now e"
    using expires_within_iff[OF assms(2)] by blast
  then obtain token where "jwt (client r) = Some token" "jwt_exp (w_jwt W) token = Some exp_at"
    by (auto simp: token_exp_def current_jwt_def bind_eq_Some_conv)
  with left assms(3)[of r token bo] False show ?thesis
    by (simp add: refresh_token_def presentable_def life_left_def)
qed

lemma loop_iteration_alike:
  assumes "extract_token (enrollment_url (cfg r)) = Inr enrollment"
    and "heartbeat_interval (cfg r) < from_secs (2 ^ 61)" and "alike W (cfg r) e e'"
  shows "loop_iteration W e bo r = loop_iteration W e' bo r"
proof -
  obtain answer where e': "e' = e\<lparr>le_session := (le_session e)\<lparr>se_open := answer\<rparr>\<rparr>"
    and same: "\<And>ch md token. md ''mcpg-instance-token'' = Some token \<Longrightarrow> presentable W (cfg r) e token
      \<Longrightarrow> answer ch md = se_open (le_session e) ch md"
    using assms(3) by (auto simp: alike_def)
  let ?k = "\<lambda>e (bo, r). case run_session W (le_session e) r of (res, _, r) \<Rightarrow> after_session W e res (bo, r)"
  have sel: "le_factor e' = le_factor e" "le_discard_io e' = le_discard_io e" "le_register_after e' = le_register_after e"
    "le_now e' = le_now e" "le_register_before e' = le_register_before e" "le_stopping e' = le_stopping e"
    by (simp_all add: e')
  have after: "after_session W e' res = after_session W e res" for res
    unfolding after_session_def sel by (rule refl)
  have "?k e (bo1, r1) = ?k e' (bo1, r1)" if "jwt (client r1) = Some token" "presentable W (cfg r) e token" for bo1 r1 token
  proof -
    have "run_session W (le_session e') r1 = run_session W (le_session e) r1"
      using run_session_answers[of r1 answer "le_session e" W] same that by (simp add: e')
    then show ?thesis by (simp add: after)
  qed
  then have "refresh_token W e (?k e) bo r = refresh_token W e (?k e') bo r"
    by (rule refresh_token_good[OF assms(1,2)])
  moreover have "refresh_token W e (?k e') bo r = refresh_token W e' (?k e') bo r"
    unfolding refresh_token_def sel by (rule refl)
  ultimately show ?thesis unfolding loop_iteration_def sel by simp
qed

lemma loop_from_alike:
  assumes "list_all2 (alike W (cfg r0)) es es'" and "kept r0 r"
    and "extract_token (enrollment_url (cfg r0)) = Inr enrollment" and "heartbeat_interval (cfg r0) < from_secs (2 ^ 61)"
  shows "loop_from W es bo r = loop_from W es' bo r"
  using assms(1,2)
proof (induction es es' arbitrary: bo r rule: list_all2_induct)
  case (Cons e es e' es')
  have c: "cfg r = cfg r0" using Cons.prems by (simp add: kept_def same_config_def)
  have it: "loop_iteration W e bo r = loop_iteration W e' bo r"
    using assms(3,4) Cons.hyps(1) unfolding c[symmetric] by (rule loop_iteration_alike)
  obtain le bo1 r1 where next_r: "loop_iteration W e' bo r = (le, bo1, r1)" by (cases "loop_iteration W e' bo r")
  have "kept r0 r1" using loop_iteration_kept[OF Cons.prems, of W e' bo] next_r by simp
  from Cons.IH[OF this, of bo1] show ?case by (cases le) (simp_all add: it next_r)
qed simp

lemma run_with_creds_alike:
  assumes "list_all2 (alike W (cfg r0)) es es'" and "kept r0 r"
    and "extract_token (enrollment_url (cfg r0)) = Inr enrollment" and "heartbeat_interval (cfg r0) < from_secs (2 ^ 61)"
  shows "run_with_creds W sa es r = run_with_creds W sa es' r"
proof -
  obtain res r1 where p: "preload_lkg W (sa_lkg_io sa) (sa_rng sa) r = (res, r1)"
    by (cases "preload_lkg W (sa_lkg_io sa) (sa_rng sa) r")
  have "kept r0 r1" using preload_kept[OF assms(2), of W "sa_lkg_io sa" "sa_rng sa"] p by simp
  from loop_from_alike[OF assms(1) this assms(3,4)] show ?thesis by (simp add: run_with_creds_def p run_loop_def)
qed

lemma loop_iteration_good_token:
  assumes "heartbeat_interval (cfg r) < from_secs (2 ^ 61)" and "\<not> le_stopping e"
    and "jwt (client r) = Some token" and "life_left (w_jwt W) (heartbeat_interval (cfg r)) (le_now e) token"
  shows "loop_iteration W e bo r = (case run_session W (le_session e) r of (res, _, r') \<Rightarrow> after_session W e res (bo, r'))"
proof -
  have "\<not> expires_within (token_exp W r) (le_now e) (token_refresh_window (heartbeat_interval (cfg r)))"
    using assms(3,4) expires_within_iff[OF assms(1)] by (simp add: token_exp_def current_jwt_def life_left_def)
  with assms(2) show ?thesis by (simp add: loop_iteration_def refresh_token_def)
qed

section \<open>Properties\<close>

text \<open>
  C14. A run presents good tokens only. Let the enrollment URL hold a token and the heartbeat interval
  be below \<open>2 ^ 61\<close> seconds. Change, at every iteration of the loop, what the control plane answers to a
  Channel opened without a token, or with a token that at the iteration's clock has at most five minutes
  or at most three heartbeat intervals left (or no readable expiry) and that the control plane did not
  issue to the registration of that same iteration. Nothing of the run changes: not its end, nor the
  state, files and events it leaves. So no such request is ever made; a token that is due is replaced
  before the connect, or the iteration ends without one. Conversely an iteration that finds a token with
  that much left does not register and goes straight to its session.
\<close>

theorem only_good_tokens_are_presented:
  assumes "runner_ok r" and "extract_token (enrollment_url (cfg r)) = Inr enrollment"
    and "heartbeat_interval (cfg r) < from_secs (2 ^ 61)" and "list_all2 (alike W (cfg r)) es es'"
  shows "run W sa es r = run W sa es' r
    \<and> (\<not> le_stopping e \<and> jwt (client r) = Some token \<and> life_left (w_jwt W) (heartbeat_interval (cfg r)) (le_now e) token \<longrightarrow>
         loop_iteration W e bo r = (case run_session W (le_session e) r of (res, _, r') \<Rightarrow> after_session W e res (bo, r')))"
proof -
  obtain res s where mk: "create_dir_all (sa_mkdir_io sa) (state_dir (cfg r)) (disk r) = (res, s)"
    by (cases "create_dir_all (sa_mkdir_io sa) (state_dir (cfg r)) (disk r)")
  have "kept r r" using assms(1) by (simp add: kept_def same_config_def)
  then have "kept r (r\<lparr>disk := s\<rparr>)" by (rule kept_frame) simp_all
  note k1 = bootstrap_kept[OF this]
  let ?r1 = "use_bootstrap_ca (r\<lparr>disk := s\<rparr>)"
  obtain rg ds r2 where rg: "register_fresh W (sa_register sa) ?r1 = (rg, ds, r2)"
    by (cases "register_fresh W (sa_register sa) ?r1")
  note same = run_with_creds_alike[OF assms(4) _ assms(2,3), of _ sa]
  have "run_with_creds W sa es (install_on (w_creds W) creds ?r1) = run_with_creds W sa es' (install_on (w_creds W) creds ?r1)" for creds
    by (rule same[OF kept_install[OF k1]])
  moreover have "run_with_creds W sa es r2 = run_with_creds W sa es' r2" by (rule same[OF register_fresh_kept[OF k1 rg]])
  ultimately have "run W sa es r = run W sa es' r"
    by (cases rg) (simp_all add: run_def mk rg Let_def split: sum.split option.split)
  with loop_iteration_good_token[OF assms(3), of e token W bo] show ?thesis by blast
qed

text \<open>
  A token without a readable expiry is replaced by the one that the control plane issues, so a control
  plane that answers only to that one makes no difference.
\<close>

definition demo_due_iteration :: "bytes loop_env" where
  "demo_due_iteration = demo_loop_env\<lparr>le_now := 1000,
     le_register_before := demo_register_env\<lparr>re_attempts := [(demo_transport, (\<lambda>_ _. Inr demo_response), 1)]\<rparr>\<rparr>"

definition demo_strict_iteration :: "bytes loop_env" where
  "demo_strict_iteration = demo_due_iteration\<lparr>le_session := (le_session demo_due_iteration)\<lparr>se_open :=
     (\<lambda>_ md. if md ''mcpg-instance-token'' = Some ''j1'' then Inr () else Inl (anyhow_msg ''stale''))\<rparr>\<rparr>"

definition demo_start :: start_env where
  "demo_start = \<lparr>sa_mkdir_io = all_works, sa_creds_io = all_works, sa_register = demo_register_env, sa_lkg_io = all_works,
     sa_rng = demo_rng\<rparr>"

lemma demo_exp: "jwt_exp demo_jwt token = Some t \<Longrightarrow> t \<le> 900"
  by (auto simp: jwt_exp_def jwt_claims_def demo_jwt_def bind_eq_Some_conv i64_max_def i64_min_def split: if_splits option.splits)

lemma demo_presentable: "presentable demo_world c demo_due_iteration token \<Longrightarrow> token = ''j1''"
proof -
  assume p: "presentable demo_world c demo_due_iteration token"
  have "\<not> life_left demo_jwt hb 1000 token" for hb using demo_exp[of token] by (auto simp: life_left_def)
  with p have "just_issued demo_due_iteration c token"
    by (simp add: presentable_def demo_world_def demo_due_iteration_def)
  moreover have "rr_instance_jwt demo_response = ''j1''" by (simp add: demo_response_def)
  ultimately show ?thesis by (auto simp: just_issued_def demo_due_iteration_def dest: demo_answered)
qed

theorem only_good_tokens_are_presented_witness:
  "run demo_world demo_start [demo_due_iteration] demo_runner = run demo_world demo_start [demo_strict_iteration] demo_runner
   \<and> se_open (le_session demo_due_iteration) \<noteq> se_open (le_session demo_strict_iteration)"
proof
  have sel: "cfg demo_runner = demo_cfg" by (simp add: demo_runner_def runner_new_def)
  have "extract_token (enrollment_url (cfg demo_runner)) = Inr ''T''"
    using demo_token by (simp add: demo_fresh_def runner_new_def sel)
  moreover have "heartbeat_interval (cfg demo_runner) < from_secs (2 ^ 61)"
    by (simp add: sel demo_cfg_def agent_runner_config_default_def from_secs_def)
  moreover have "alike demo_world (cfg demo_runner) demo_due_iteration demo_strict_iteration"
    unfolding alike_def demo_strict_iteration_def using demo_presentable
    by (intro exI conjI) (rule refl, auto simp: demo_due_iteration_def demo_loop_env_def demo_session_def)
  ultimately show "run demo_world demo_start [demo_due_iteration] demo_runner = run demo_world demo_start [demo_strict_iteration] demo_runner"
    using only_good_tokens_are_presented[OF demo_runner_ok, of "''T''" demo_world "[demo_due_iteration]" "[demo_strict_iteration]"] by simp
  have "se_open (le_session demo_due_iteration) ch (\<lambda>_. Some ''j'') \<noteq> se_open (le_session demo_strict_iteration) ch (\<lambda>_. Some ''j'')" for ch
    by (simp add: demo_strict_iteration_def demo_due_iteration_def demo_loop_env_def demo_session_def)
  then show "se_open (le_session demo_due_iteration) \<noteq> se_open (le_session demo_strict_iteration)" by metis
qed

end
