(* ===== verification/Spec2Isabelle.thy ===== *)
theory Spec2Isabelle
  imports RunOnce StopLink Config MetricsLocks ConfigTrack Presented
begin

text \<open>
  A verification development for the gateway-side control-plane agent (\<open>src/src\<close>, a Rust crate).

  \<^bold>\<open>The program.\<close> A gateway process embeds an \<open>AgentRunner\<close> (\<open>agent.rs\<close>). \<open>run\<close> takes the
  credentials cached in the state directory or registers with the enrollment token, preloads the
  last known good configuration, and enters \<open>run_loop\<close>: replace a token that is about to expire, open
  a Channel (a bidirectional gRPC stream), run a session on it, and decide by its error how to go on.
  A session runs a heartbeat ticker, the metrics and log flush loops and the status loop beside the
  reader of server messages (configuration updates, credential rotations, licences, quota,
  quarantine). \<open>AgentShutdown\<close> stops the loop gracefully after a final flush of both buffers. Three
  files persist across restarts: the credentials, the licence delivery, and the sealed configuration
  cache.

  \<^bold>\<open>The theories\<close>, in the order they build on each other.
  \<^item> \<open>Prelude\<close>: \<open>Duration\<close>, instants, saturating and wrapping integers, \<open>?\<close> as \<open>try_bind\<close>, the
    \<open>str\<close> operations the crate calls, generic list lemmas.
  \<^item> \<open>Wire\<close>: the protobuf messages an agent sends. \<open>Rpc\<close>: \<open>tonic::Status\<close>, metadata, \<open>anyhow\<close>
    error chains. \<open>Json\<close>: JSON values and the derived serde readers. \<open>External\<close>: the crypto, base64
    and randomness parameters with the documented behaviour relied on.
  \<^item> \<open>FileSys\<close>: files, directories and modes, with an oracle that decides per call whether an
    operation works, fails, or fails after writing part. Its locale \<open>atomic_cell\<close> (a step that either
    publishes a new content or leaves the old one) proves that a series of steps refines a register;
    it is interpreted for the licence cache, the configuration cache and the credentials file.
  \<^item> \<open>Lanes\<close>: the locale \<open>counted_lane\<close> with its ledger, interpreted by the log buffer, and its
    extension \<open>returnable_lane\<close> for a lane that takes undelivered batches back, by the metrics buffer;
    \<open>conserving_steps\<close> for step functions that keep a quantity, interpreted by both lanes after an abort.
  \<^item> \<open>Metrics\<close> (\<open>metrics.rs\<close>): ring, counters, event rollup, reports, in-flight guard, flush loop.
    Invariant, the billing ledger, the reference for \<open>record\<close>, requeue as the inverse of drain,
    faithful and ordered reports, early flush. \<open>MetricsOrder\<close>: calls go out in order and none twice.
    \<open>MetricsLocks\<close>: the same buffer at the granularity of its two mutexes, with any number of threads;
    every execution is a replay of the atomic operations that the other theories compose, and the billing
    ledger holds with any number of flush tasks at work on one buffer.
  \<^item> \<open>Logs\<close> (\<open>logs.rs\<close>): the log ring and its loop; the ledger with the one batch that can be lost.
  \<^item> \<open>FinalFlush\<close> (the end of \<open>run_session\<close> and \<open>flush_remaining\<close>): \<open>abort\<close> is a request, so the
    state of a lane is followed through the steps of its aborted task (\<open>tail_step\<close>, \<open>log_tail_step\<close>),
    the final flush and producers, in any order, until the task is gone. Conservation of both lanes, the
    undisturbed flush ships everything, the two ways in which a final flush falls short.
  \<^item> \<open>Backoff\<close> (\<open>backoff.rs\<close>): the closed form of the delays; the jitter in double arithmetic with
    its rounding error and its panic at the top of the range.
  \<^item> \<open>PayloadDek\<close> (\<open>payload_dek.rs\<close>), \<open>LicenseDelivery\<close> (\<open>license_delivery.rs\<close>), \<open>Lkg\<close>
    (\<open>lkg.rs\<close>), \<open>Creds\<close> (\<open>StoredCreds\<close> and its functions in \<open>agent.rs\<close>): sealing and opening;
    crash-safe files; the stability of the node secret; damage is an error.
  \<^item> \<open>Client\<close> (\<open>client.rs\<close>), \<open>Status\<close> (\<open>status.rs\<close>), \<open>Config\<close> (\<open>config.rs\<close>), \<open>Token\<close> (token and
    session-error functions of \<open>agent.rs\<close>): the branch behaviour of each operation, bounds of the
    waits, and the round trip of the configuration.
  \<^item> \<open>Agent\<close> (the runner in \<open>agent.rs\<close>): the state record \<open>runner\<close>, every message handler,
    \<open>run_session\<close>, \<open>register_fresh\<close>, \<open>run_loop\<close>, \<open>run\<close>; \<open>AgentCorrect\<close>: what they guarantee.
    \<open>ConfigTrack\<close>: an abstract specification of which bundles the host is offered, which
    acknowledgements go out and which hash is in effect, and that every session implements it; what the
    status reports say of it. \<open>Presented\<close>: a run opens no Channel with a token that is due for replacement.
    \<open>RunLedger\<close>: the locale \<open>loop_relation\<close> puts the sessions of a run together; the ledgers of both
    lanes over a run, and the graceful stop. \<open>RunOnce\<close>: over a run no call ships twice.
  \<^item> \<open>Shutdown\<close> (\<open>AgentShutdown\<close> and the places that meet it): a step relation over any number of
    callers and the run loop; invariant by rule induction, wake-ups that are and are not lost. \<open>StopLink\<close>:
    a run loop whose loads of the stop flag come from such an interleaving flushes once, at its end.
  \<^item> This theory: what a restart presents after a rotation, across the handler, the file and the
    client.

  \<^bold>\<open>How state and effects correspond.\<close> A struct is a record and a method is a function on it that
  returns the new record; \<open>Arc\<close>, locks and atomics disappear, since every method is atomic in the
  model. For the metrics buffer, the only structure whose methods take two locks, \<open>MetricsLocks\<close> shows
  that nothing is lost by that; a method of the log buffer holds its one lock for its whole body. An error is the left side of a sum; a panic is a value of its own (\<open>LkgPanic\<close>,
  \<open>RegisterPanic\<close>, \<open>LoopPanic\<close>, \<open>None\<close> for \<open>next_delay\<close>). What the process does not decide (clock,
  randomness, disk, network answers, host hooks, producers, where a task is aborted) comes from
  environment records, universally quantified in the properties. A loop that runs until something
  outside ends it takes the list or the number of its iterations, so a property that holds for every
  list holds at every moment of the real run; where a loop must end (registering, the flushes), the
  property says that it does. In \<open>Agent\<close> the stop flag is part of that environment, one value per place
  that loads it; \<open>Shutdown\<close> models how the flag and its wake-ups come about, and \<open>StopLink\<close> joins the two. The shutdown flush keeps the crate's own bound of 16 batches, which is
  shown to be enough for the default buffers.

  \<^bold>\<open>Parameters.\<close> AES-GCM, HKDF, base64, JSON text, the protobuf codec of a bundle, date text,
  humantime, BLAKE3, metadata value rules, the header names and enum numbers of
  \<open>mcpg-control-plane-core\<close>, tonic's transport, and tokio's \<open>Notify\<close>. Hypotheses on them state their
  documented behaviour, and each property with such a hypothesis is applied to a concrete instance.

  \<^bold>\<open>Not modelled.\<close> Log output. The capacity of the event broadcast and of the outbound queue (a send
  is taken, fails or is aborted). The order between the events of different tasks: the heartbeat events of
  a session are listed after those of its reader. Producers between the early wake of the metrics loop and
  the end of its spacing sleep, as a step of its own: the permit is taken after them, so that a permit they
  set again is not kept (in \<open>MetricsLocks\<close> it can be taken at any time). The order in which messages of different lanes interleave in the
  outbound channel. What tonic does with messages still queued there when the stream is dropped: shipped
  means handed to the outbound channel. Cancellation other than at the await points of the reader and
  the flush loops, and the aborts; in particular lock acquisitions are atomic, and the future of \<open>run\<close>
  itself is never dropped. Timers: an aborted task may drain at any point until it is gone, whether or
  not its tick is due. That an aborted task is gone before the next session's tasks start is assumed (the
  loop sleeps, or at least opens a Channel, in between); the billing ledger of \<open>MetricsLocks\<close>, which
  puts no order on the tasks, does not need it. The \<open>u32\<close> attempt counter that \<open>retry_with_backoff\<close> prints. The
  accessors that only clone a handle, and \<open>lib.rs\<close>, which only re-exports.
\<close>

section \<open>Across a restart\<close>

lemma handle_rotation_client:
  "rot_instance_jwt cr \<noteq> [] \<Longrightarrow> jwt (client (handle_rotation W e cr r)) = Some (rot_instance_jwt cr)"
  "rot_instance_jwt cr \<noteq> [] \<Longrightarrow> disk (handle_rotation W e cr r)
     = snd (persist_rotated_creds (w_creds W) (me_io e) (me_now e) (state_dir (cfg r)) cr (disk r))"
  by (simp_all add: handle_rotation_def Let_def set_jwt_def set_tls_def split: sum.splits)

lemma persisted_rotation_content:
  assumes "fst (persist_rotated_creds P io now dir cr s) = Inr ()"
    and "creds_in P (file_content (creds_path dir) s) = Some c"
    and "creds_survive P (rotate_creds P now cr c)"
  shows "creds_in P (file_content (creds_path dir) (snd (persist_rotated_creds P io now dir cr s)))
       = Some (rotate_creds P now cr c)"
proof -
  have "file_content (creds_path dir) (snd (persist_rotated_creds P io now dir cr s))
      = rotated_content P (io, now, cr) (file_content (creds_path dir) s)"
    using rotation_step_effect(1)[of P dir "(io, now, cr)" s "()"] assms(1) unfolding rotation_step_def prod.case
    by blast
  then show ?thesis unfolding rotated_content_def prod.case assms(2) using assms(3)
    by (simp only: option.case creds_in_print)
qed

lemma handle_rotation_tls:
  assumes "rot_instance_jwt cr \<noteq> []" and "rot_client_cert_pem cr \<noteq> []" and "rot_client_key_pem cr \<noteq> []"
    and "fst (persist_rotated_creds (w_creds W) (me_io e) (me_now e) (state_dir (cfg r)) cr (disk r)) = Inr ()"
    and "creds_in (w_creds W) (file_content (creds_path (state_dir (cfg r))) (disk r)) = Some c"
    and "creds_survive (w_creds W) (rotate_creds (w_creds W) (me_now e) cr c)"
    and "me_io_again e (OpRead (creds_path (state_dir (cfg r)))) = Works"
  shows "tls (client (handle_rotation W e cr r)) = Some (creds_tls (rotate_creds (w_creds W) (me_now e) cr c))"
  using assms read_stored_creds_content[of "me_io_again e" "state_dir (cfg r)", OF assms(7) persisted_rotation_content[OF assms(4-6)]]
  by (simp add: handle_rotation_def Let_def set_jwt_def set_tls_def creds_tls_def rotate_creds_def)

text \<open>
  C33. A rotation outlives the process. Once the handler of a rotation push has persisted it, a new
  process started on the same state directory finds cached credentials and presents what the running
  one switched to: the rotated token, the rotated data key when it is usable, and, when the push
  carried a whole certificate pair and the file names a CA, the same TLS material.
\<close>

theorem rotation_survives_restart:
  assumes "rot_instance_jwt cr \<noteq> []"
    and "fst (persist_rotated_creds (w_creds W) (me_io e) (me_now e) (state_dir (cfg r)) cr (disk r)) = Inr ()"
    and "creds_in (w_creds W) (file_content (creds_path (state_dir (cfg r))) (disk r)) = Some c"
    and "creds_survive (w_creds W) (rotate_creds (w_creds W) (me_now e) cr c)"
    and "io (OpRead (creds_path (state_dir (cfg r)))) = Works"
    and "me_io_again e (OpRead (creds_path (state_dir (cfg r)))) = Works"
    and "b64_roundtrip (cr_b64 (w_creds W))"
    and "rot_payload_dek cr \<noteq> [] \<Longrightarrow> b64_encode (cr_b64 (w_creds W)) (rot_payload_dek cr) \<noteq> []"
  shows "let r' = handle_rotation W e cr r; fresh = runner_new process (disk r') (cfg r) in
    \<exists>stored. cached_creds W io fresh = Some stored
      \<and> jwt (client r') = Some (rot_instance_jwt cr)
      \<and> jwt (client (install_on (w_creds W) stored fresh)) = Some (rot_instance_jwt cr)
      \<and> (\<forall>h. from_proto (rot_payload_dek cr) (rot_payload_dek_version cr) = Inr (Some h) \<longrightarrow>
            payload_dek r' = Some h \<and> payload_dek (install_on (w_creds W) stored fresh) = Some h)
      \<and> (rot_client_cert_pem cr \<noteq> [] \<and> rot_client_key_pem cr \<noteq> [] \<and> sc_ca_chain_pem c \<noteq> [] \<longrightarrow>
            tls (client (install_on (w_creds W) stored fresh)) = tls (client r'))"
proof -
  let ?stored = "rotate_creds (w_creds W) (me_now e) cr c"
  let ?fresh = "runner_new process (disk (handle_rotation W e cr r)) (cfg r)"
  have "cached_creds W io ?fresh = Some ?stored"
    using read_stored_creds_content[of io "state_dir (cfg r)", OF assms(5) persisted_rotation_content[OF assms(2-4)]]
    by (simp add: cached_creds_def runner_new_def handle_rotation_client(2)[OF assms(1)])
  moreover have "jwt (client (install_on (w_creds W) ?stored ?fresh)) = Some (rot_instance_jwt cr)"
    by (simp add: install_on_def install_creds_def Let_def set_jwt_def set_tls_def reset_def rotate_creds_keeps)
  moreover have "payload_dek (handle_rotation W e cr r) = Some h
      \<and> payload_dek (install_on (w_creds W) ?stored ?fresh) = Some h"
    if "from_proto (rot_payload_dek cr) (rot_payload_dek_version cr) = Inr (Some h)" for h
  proof -
    have "rot_payload_dek cr \<noteq> []" using that by (auto simp: from_proto_def)
    then show ?thesis
      using that assms(1,8) rotated_dek_survives_restart[OF assms(7) that]
      by (simp add: handle_rotation_dek rotate_dek_def install_on_def install_creds_def Let_def)
  qed
  moreover have "tls (client (install_on (w_creds W) ?stored ?fresh)) = Some (creds_tls ?stored)"
    if "rot_client_cert_pem cr \<noteq> []" "rot_client_key_pem cr \<noteq> []" "sc_ca_chain_pem c \<noteq> []"
    using that
    by (simp add: install_on_def install_creds_def Let_def set_jwt_def set_tls_def reset_def rotate_creds_def)
  ultimately show ?thesis
    using assms(1) handle_rotation_client(1) handle_rotation_tls[OF assms(1) _ _ assms(2-4,6)]
    by (auto simp: Let_def)
qed

lemma persist_rotated_creds_works:
  assumes "creds_in P (file_content (creds_path dir) s) = Some c" and "is_dir dir s"
    and "\<not> is_dir (creds_path dir) s" and "\<not> is_dir (join dir ''agent-creds.json.tmp'') s"
  shows "fst (persist_rotated_creds P all_works now dir cr s) = Inr ()"
  using assms read_stored_creds_content[of all_works dir P s c]
  by (simp add: persist_rotated_creds_def try_bind_def Let_def map_err_def creds_tmp_path[unfolded creds_path_def join_def] fs_write_def fs_chmod_def
      fs_rename_def put_file_def is_dir_def creds_path_def join_def)

definition demo_rotating :: "bytes runner" where
  "demo_rotating = demo_fresh\<lparr>disk := demo_creds_fs\<rparr>"

theorem rotation_survives_restart_witness:
  "let r' = handle_rotation demo_world ((demo_message_env Applied)\<lparr>me_now := DateTime 0 0\<rparr>) demo_rotation demo_rotating;
       fresh = runner_new ''q'' (disk r') (cfg demo_rotating)
   in \<exists>stored. cached_creds demo_world all_works fresh = Some stored
        \<and> jwt (client r') = Some ''j2'' \<and> jwt (client (install_on demo_creds_packages stored fresh)) = Some ''j2''"
proof -
  let ?e = "(demo_message_env Applied)\<lparr>me_now := DateTime 0 0\<rparr>"
  have w: "w_creds demo_world = demo_creds_packages" by (simp add: demo_world_def)
  have d: "disk demo_rotating = demo_creds_fs" "state_dir (cfg demo_rotating) = [''s'']"
    by (simp_all add: demo_rotating_def demo_fresh_def runner_new_def demo_cfg_def)
  have c: "creds_in demo_creds_packages (file_content (creds_path [''s'']) demo_creds_fs) = Some demo_creds"
    using creds_in_print[OF demo_creds_survive(1)] by (simp add: demo_creds_fs_def creds_path_def join_def)
  have ok: "fst (persist_rotated_creds demo_creds_packages all_works (DateTime 0 0) [''s''] demo_rotation demo_creds_fs) = Inr ()"
    by (rule persist_rotated_creds_works[OF c]) (simp_all add: is_dir_def demo_creds_fs_def creds_path_def join_def)
  have j: "rot_instance_jwt demo_rotation = ''j2''" "rot_payload_dek demo_rotation = []"
    by (simp_all add: demo_rotation_def)
  have b: "b64_roundtrip (cr_b64 demo_creds_packages)"
    by (simp add: demo_creds_packages_def demo_codec_def demo_parameters_ok)
  show ?thesis
    using rotation_survives_restart[of demo_rotation demo_world ?e demo_rotating demo_creds all_works "''q''"] ok c
      demo_creds_survive(2)
    by (simp add: w d j demo_rotate Let_def demo_message_env_def b) blast
qed

end
